theory Spec2Isabelle
  imports Main
begin

section \<open>The neural scalar of \<^verbatim>\<open>examples/neural_scalar.h\<close>\<close>

text \<open>
  \<^verbatim>\<open>NeuralScalar<Scalar, Utils>\<close> is a class template. Its two template arguments and the
  network class \<^verbatim>\<open>TinyNeuralNetwork\<close> of the header \<^verbatim>\<open>tiny_neural_network.h\<close> are not
  part of the file; the operations the class calls on them are taken as parameters,
  collected in two records. Nothing is assumed about them: no algebraic law of the scalar
  operators, no relation between the network's accessors.
\<close>

subsection \<open>The template parameters\<close>

text \<open>
  The scalar domain: \<^verbatim>\<open>Utils::zero()\<close>, the value-initialised \<^verbatim>\<open>Scalar()\<close> with which
  \<^verbatim>\<open>std::vector<Scalar>(n)\<close> fills its elements, and the operators of \<^verbatim>\<open>Scalar\<close> that the
  class applies.
\<close>

record 's scalar_ops =
  s_zero :: "'s"
  s_default :: "'s"
  s_add :: "'s \<Rightarrow> 's \<Rightarrow> 's"
  s_sub :: "'s \<Rightarrow> 's \<Rightarrow> 's"
  s_mul :: "'s \<Rightarrow> 's \<Rightarrow> 's"
  s_div :: "'s \<Rightarrow> 's \<Rightarrow> 's"
  s_neg :: "'s \<Rightarrow> 's"
  s_lt :: "'s \<Rightarrow> 's \<Rightarrow> bool"
  s_le :: "'s \<Rightarrow> 's \<Rightarrow> bool"
  s_gt :: "'s \<Rightarrow> 's \<Rightarrow> bool"
  s_eq :: "'s \<Rightarrow> 's \<Rightarrow> bool"
  s_ne :: "'s \<Rightarrow> 's \<Rightarrow> bool"

text \<open>
  The network class, of type \<open>'net\<close>, with its activation and initialisation enumerations
  \<open>'act\<close> and \<open>'init\<close>. \<open>nn_default\<close> is the default-constructed network.
  \<^verbatim>\<open>compute(inputs, output)\<close> is a const member that writes its second argument:
  \<open>nn_compute net inputs output\<close> is the content of \<^verbatim>\<open>output\<close> after the call.
  The mutating members return the changed network.
\<close>

record ('s, 'net, 'act, 'init) nn_ops =
  nn_default :: "'net"
  nn_input_dim :: "'net \<Rightarrow> int"
  nn_output_dim :: "'net \<Rightarrow> int"
  nn_num_layers :: "'net \<Rightarrow> int"
  nn_set_input_dim :: "int \<Rightarrow> 'net \<Rightarrow> 'net"
  nn_add_linear_layer :: "'act \<Rightarrow> int \<Rightarrow> 'net \<Rightarrow> 'net"
  nn_initialize :: "'init \<Rightarrow> 'net \<Rightarrow> 'net"
  nn_compute :: "'net \<Rightarrow> 's list \<Rightarrow> 's list \<Rightarrow> 's list"
  NN_INIT_XAVIER :: "'init"

subsection \<open>Objects, pointers and the static members\<close>

text \<open>
  A member whose name ends in an underscore is written with a prime: \<open>value'\<close> is
  \<^verbatim>\<open>value_\<close>, and \<open>evaluate_network\<close> is \<^verbatim>\<open>evaluate_network_\<close>.
  A \<^verbatim>\<open>NeuralScalar*\<close> is an address or the null pointer; objects live in a heap that maps
  addresses to objects, so that two pointers to one node see each other's writes.
\<close>

type_synonym ptr = "nat option"

record ('s, 'net) NeuralScalar =
  value' :: "'s"
  cache' :: "'s"
  is_dirty' :: bool
  inputs' :: "ptr list"
  net' :: "'net"
  name' :: string
  is_residual :: bool

record 'net NeuralBlueprint =
  input_names :: "string list"
  net :: "'net"

text \<open>
  The program state: the heap, the two static maps of the class, the two function-local
  static vectors of \<^verbatim>\<open>evaluate_network_\<close> (\<open>None\<close> until control first passes their
  declaration), and the text written to \<^verbatim>\<open>std::cerr\<close>. \<open>compute_calls\<close> is instrumentation,
  not a variable of the program: it lists every call of \<^verbatim>\<open>compute\<close> so far, with the
  network, the input vector passed and the output vector written.
\<close>

record ('s, 'net) state =
  heap :: "nat \<rightharpoonup> ('s, 'net) NeuralScalar"
  named_scalars' :: "string \<rightharpoonup> nat"
  blueprints' :: "string \<rightharpoonup> 'net NeuralBlueprint"
  static_inputs :: "'s list option"
  static_output :: "'s list option"
  cerr :: "string list"
  compute_calls :: "('net \<times> 's list \<times> 's list) list"

text \<open>
  What ends a call without a result: the recursion budget of the model is used up
  (\<open>OutOfFuel\<close>, the model's stand-in for a recursion that does not end), undefined behaviour
  (a null or dangling pointer is dereferenced, a vector is indexed out of range, \<^verbatim>\<open>int\<close>
  overflows), or \<^verbatim>\<open>assert(0)\<close> terminates the process, in the state given.
\<close>

datatype 'st error = OutOfFuel | NullDeref | Dangling | OutOfRange | SignedOverflow
  | AssertFailed 'st

subsection \<open>Constructors\<close>

text \<open>
  \<^verbatim>\<open>cache_\<close> has no initialiser: \<open>uninit\<close> is whatever the memory holds.
\<close>

definition NeuralScalar_default ::
  "'s scalar_ops \<Rightarrow> ('s, 'net, 'act, 'init) nn_ops \<Rightarrow> 's \<Rightarrow> ('s, 'net) NeuralScalar" where
  "NeuralScalar_default ops nn uninit =
     \<lparr>value' = s_zero ops, cache' = uninit, is_dirty' = True, inputs' = [],
      net' = nn_default nn, name' = [], is_residual = True\<rparr>"

definition NeuralScalar_of_value ::
  "'s scalar_ops \<Rightarrow> ('s, 'net, 'act, 'init) nn_ops \<Rightarrow> 's \<Rightarrow> 's \<Rightarrow> ('s, 'net) NeuralScalar" where
  "NeuralScalar_of_value ops nn uninit v =
     \<lparr>value' = v, cache' = uninit, is_dirty' = True, inputs' = [],
      net' = nn_default nn, name' = [], is_residual = True\<rparr>"

subsection \<open>Evaluation\<close>

text \<open>
  \<^verbatim>\<open>evaluate_network_\<close> declares two function-local static vectors. Such a variable is
  initialised when control first passes its declaration, once for the whole program, and
  every later call, of any node, uses the same vector:
  \<^verbatim>\<open>static std::vector<Scalar> inputs(inputs_.size())\<close> and
  \<^verbatim>\<open>static std::vector<Scalar> output(1)\<close>. \<open>call_compute\<close> is
  \<^verbatim>\<open>net_.compute(inputs, output)\<close> on these two vectors, with the call added to the
  instrumentation.
\<close>

definition declare_inputs :: "'s scalar_ops \<Rightarrow> nat \<Rightarrow> ('s, 'net) state \<Rightarrow> ('s, 'net) state" where
  "declare_inputs ops count st =
     (case static_inputs st of
        None \<Rightarrow> st\<lparr>static_inputs := Some (replicate count (s_default ops))\<rparr>
      | Some xs \<Rightarrow> st)"

definition declare_output :: "'s scalar_ops \<Rightarrow> ('s, 'net) state \<Rightarrow> ('s, 'net) state" where
  "declare_output ops st =
     (case static_output st of
        None \<Rightarrow> st\<lparr>static_output := Some [s_default ops]\<rparr>
      | Some ys \<Rightarrow> st)"

definition inputs_vector :: "('s, 'net) state \<Rightarrow> 's list" where
  "inputs_vector st = (case static_inputs st of None \<Rightarrow> [] | Some xs \<Rightarrow> xs)"

definition output_vector :: "('s, 'net) state \<Rightarrow> 's list" where
  "output_vector st = (case static_output st of None \<Rightarrow> [] | Some ys \<Rightarrow> ys)"

definition call_compute ::
  "('s, 'net, 'act, 'init) nn_ops \<Rightarrow> 'net \<Rightarrow> ('s, 'net) state \<Rightarrow> ('s, 'net) state" where
  "call_compute nn w st =
     (let output = nn_compute nn w (inputs_vector st) (output_vector st)
      in st\<lparr>static_output := Some output,
            compute_calls := compute_calls st @ [(w, inputs_vector st, output)]\<rparr>)"

text \<open>
  \<^verbatim>\<open>evaluate\<close> and \<^verbatim>\<open>evaluate_network_\<close> call each other, through the input pointers and
  through the name registry, and nothing stops a cyclic graph: the first argument bounds
  the depth of nested calls. \<open>eval_inputs\<close> is the \<^verbatim>\<open>for\<close> loop of \<^verbatim>\<open>evaluate_network_\<close>
  from index \<open>i\<close> on, over the input pointers still to visit: a null pointer is skipped, and
  the result of a present input is stored at index \<open>i\<close> of the static vector \<^verbatim>\<open>inputs\<close>.
  The loop runs over the inputs that the node has when \<^verbatim>\<open>evaluate_network_\<close> is entered, and
  \<^verbatim>\<open>compute\<close> is called on the network that it has then; the source reads both members
  anew, and no evaluation writes either (lemma \<open>evaluate_frame_all\<close> below).
  For a name that the registry does not hold, \<^verbatim>\<open>named_scalars_[name_]\<close> inserts a null
  pointer, which differs from \<^verbatim>\<open>this\<close> and is dereferenced.
\<close>

fun evaluate ::
  "'s scalar_ops \<Rightarrow> ('s, 'net, 'act, 'init) nn_ops \<Rightarrow> nat \<Rightarrow> ('s, 'net) state \<Rightarrow> nat
     \<Rightarrow> ('s, 'net) state error + ('s \<times> ('s, 'net) state)"
and evaluate_network ::
  "'s scalar_ops \<Rightarrow> ('s, 'net, 'act, 'init) nn_ops \<Rightarrow> nat \<Rightarrow> ('s, 'net) state \<Rightarrow> nat
     \<Rightarrow> ('s, 'net) state error + ('s \<times> ('s, 'net) state)"
and eval_inputs ::
  "'s scalar_ops \<Rightarrow> ('s, 'net, 'act, 'init) nn_ops \<Rightarrow> nat \<Rightarrow> ('s, 'net) state \<Rightarrow> ptr list
     \<Rightarrow> nat \<Rightarrow> ('s, 'net) state error + ('s, 'net) state"
where
  "evaluate ops nn 0 st this = Inl OutOfFuel"
| "evaluate ops nn (Suc k) st this =
     (case heap st this of
        None \<Rightarrow> Inl Dangling
      | Some n \<Rightarrow>
          if \<not> is_dirty' n then Inr (cache' n, st)
          else if inputs' n = [] then
            Inr (value' n,
                 st\<lparr>heap := (heap st)(this \<mapsto> n\<lparr>is_dirty' := False, cache' := value' n\<rparr>)\<rparr>)
          else
            (case evaluate_network ops nn k st this of
               Inl e \<Rightarrow> Inl e
             | Inr (net_output, st1) \<Rightarrow>
                 (case heap st1 this of
                    None \<Rightarrow> Inl Dangling
                  | Some n1 \<Rightarrow>
                      let c = (if is_residual n1 then s_add ops (value' n1) net_output
                               else net_output)
                      in Inr (c, st1\<lparr>heap := (heap st1)
                                   (this \<mapsto> n1\<lparr>cache' := c, is_dirty' := False\<rparr>)\<rparr>))))"
| "evaluate_network ops nn 0 st this = Inl OutOfFuel"
| "evaluate_network ops nn (Suc k) st this =
     (case heap st this of
        None \<Rightarrow> Inl Dangling
      | Some n \<Rightarrow>
          if name' n \<noteq> [] \<and> named_scalars' st (name' n) \<noteq> Some this then
            (case named_scalars' st (name' n) of
               None \<Rightarrow> Inl NullDeref
             | Some other \<Rightarrow> evaluate_network ops nn k st other)
          else
            (case eval_inputs ops nn k (declare_inputs ops (length (inputs' n)) st)
                    (inputs' n) 0 of
               Inl e \<Rightarrow> Inl e
             | Inr st1 \<Rightarrow>
                 let st2 = call_compute nn (net' n) (declare_output ops st1)
                 in (case output_vector st2 of
                       [] \<Rightarrow> Inl OutOfRange
                     | y # ys \<Rightarrow> Inr (y, st2))))"
| "eval_inputs ops nn k st [] i = Inr st"
| "eval_inputs ops nn k st (None # ps) i = eval_inputs ops nn k st ps (Suc i)"
| "eval_inputs ops nn k st (Some p # ps) i =
     (case evaluate ops nn k st p of
        Inl e \<Rightarrow> Inl e
      | Inr (v, st1) \<Rightarrow>
          (case static_inputs st1 of
             None \<Rightarrow> Inl OutOfRange
           | Some xs \<Rightarrow>
               if i < length xs
               then eval_inputs ops nn k (st1\<lparr>static_inputs := Some (xs[i := v])\<rparr>) ps (Suc i)
               else Inl OutOfRange))"

subsection \<open>Wiring\<close>

text \<open>
  \<^verbatim>\<open>initialize\<close>, \<^verbatim>\<open>is_dirty\<close>, \<^verbatim>\<open>set_dirty\<close> and \<^verbatim>\<open>connect\<close> read and write the members of
  their own object only: each is a function on the object, and \<open>on_this\<close> runs it on the
  object at the address \<open>this\<close>. The default arguments of the source
  (\<^verbatim>\<open>NN_ACT_IDENTITY\<close>, \<^verbatim>\<open>NN_INIT_XAVIER\<close>) are supplied by the caller.
  \<^verbatim>\<open>input_dim() + 1\<close> is an addition of \<^verbatim>\<open>int\<close>, 32 bits wide.
\<close>

definition on_this ::
  "('s, 'net) state \<Rightarrow> nat
     \<Rightarrow> (('s, 'net) NeuralScalar \<Rightarrow> ('s, 'net) state error + ('s, 'net) NeuralScalar)
     \<Rightarrow> ('s, 'net) state error + ('s, 'net) state" where
  "on_this st this f =
     (case heap st this of
        None \<Rightarrow> Inl Dangling
      | Some n \<Rightarrow>
          (case f n of
             Inl e \<Rightarrow> Inl e
           | Inr n' \<Rightarrow> Inr (st\<lparr>heap := (heap st)(this \<mapsto> n')\<rparr>)))"

definition initialize ::
  "('s, 'net, 'act, 'init) nn_ops \<Rightarrow> 'init \<Rightarrow> ('s, 'net) NeuralScalar
     \<Rightarrow> ('s, 'net) NeuralScalar" where
  "initialize nn init_method n = n\<lparr>net' := nn_initialize nn init_method (net' n)\<rparr>"

definition is_dirty :: "('s, 'net) NeuralScalar \<Rightarrow> bool" where
  "is_dirty n = is_dirty' n"

definition set_dirty ::
  "('s, 'net, 'act, 'init) nn_ops \<Rightarrow> ('s, 'net) NeuralScalar \<Rightarrow> ('s, 'net) NeuralScalar" where
  "set_dirty nn n = (if nn_output_dim nn (net' n) \<noteq> 0 then n\<lparr>is_dirty' := True\<rparr> else n)"

definition connect ::
  "('s, 'net, 'act, 'init) nn_ops \<Rightarrow> ptr \<Rightarrow> 'act \<Rightarrow> ('s, 'net) NeuralScalar
     \<Rightarrow> ('s, 'net) state error + ('s, 'net) NeuralScalar" where
  "connect nn scalar activation n =
     (let n1 = n\<lparr>inputs' := inputs' n @ [scalar]\<rparr>
      in if nn_input_dim nn (net' n1) = 2147483647 then Inl SignedOverflow
         else
           let n2 = n1\<lparr>net' := nn_set_input_dim nn (nn_input_dim nn (net' n1) + 1) (net' n1)\<rparr>;
               n3 = (if nn_num_layers nn (net' n2) = 1
                     then n2\<lparr>net' := nn_add_linear_layer nn activation 1 (net' n2)\<rparr>
                     else n2)
           in Inr (set_dirty nn (initialize nn (NN_INIT_XAVIER nn) n3)))"

subsection \<open>Names and blueprints\<close>

definition retrieve :: "('s, 'net) state \<Rightarrow> string \<Rightarrow> ptr" where
  "retrieve st name = named_scalars' st name"

definition add_blueprint ::
  "('s, 'net) state \<Rightarrow> string \<Rightarrow> string list \<Rightarrow> 'net \<Rightarrow> ('s, 'net) state" where
  "add_blueprint st scalar_name names network =
     st\<lparr>blueprints' := (blueprints' st)
          (scalar_name \<mapsto> \<lparr>input_names = names, net = network\<rparr>)\<rparr>"

text \<open>
  The line that \<^verbatim>\<open>assign\<close> writes to \<^verbatim>\<open>std::cerr\<close> before \<^verbatim>\<open>assert(0)\<close>; the characters
  \<open>0x22\<close> and \<open>0x0A\<close> are the double quote and the newline.
\<close>

definition requested_before_assigned :: "string \<Rightarrow> string" where
  "requested_before_assigned input_name =
     ''NeuralScalar named '' @ [CHR 0x22] @ input_name @ [CHR 0x22]
       @ '' has been requested before it was assigned.'' @ [CHR 0x0A]"

text \<open>
  The loop of \<^verbatim>\<open>assign\<close> over the input names of the blueprint: every name is looked up
  with \<^verbatim>\<open>retrieve\<close> and the pointer found is pushed onto \<^verbatim>\<open>inputs_\<close> of the object at
  \<open>this\<close>; a name that \<^verbatim>\<open>retrieve\<close> does not find ends the process, assertions being
  compiled in.
\<close>

fun assign_inputs ::
  "('s, 'net) state \<Rightarrow> nat \<Rightarrow> string list \<Rightarrow> ('s, 'net) state error + ('s, 'net) state" where
  "assign_inputs st this [] = Inr st"
| "assign_inputs st this (input_name # rest) =
     (case retrieve st input_name of
        None \<Rightarrow> Inl (AssertFailed
                      (st\<lparr>cerr := cerr st @ [requested_before_assigned input_name]\<rparr>))
      | Some input \<Rightarrow>
          (case heap st this of
             None \<Rightarrow> Inl Dangling
           | Some n \<Rightarrow>
               assign_inputs
                 (st\<lparr>heap := (heap st)(this \<mapsto> n\<lparr>inputs' := inputs' n @ [Some input]\<rparr>)\<rparr>)
                 this rest))"

definition assign ::
  "('s, 'net) state \<Rightarrow> nat \<Rightarrow> string \<Rightarrow> ('s, 'net) state error + ('s, 'net) state" where
  "assign st this name =
     (case heap st this of
        None \<Rightarrow> Inl Dangling
      | Some n \<Rightarrow>
          let st1 = st\<lparr>heap := (heap st)(this \<mapsto> n\<lparr>name' := name\<rparr>)\<rparr>
          in (case blueprints' st1 name of
                None \<Rightarrow> Inr (st1\<lparr>named_scalars' := (named_scalars' st1)(name \<mapsto> this)\<rparr>)
              | Some blueprint \<Rightarrow>
                  (case assign_inputs st1 this (input_names blueprint) of
                     Inl e \<Rightarrow> Inl e
                   | Inr st2 \<Rightarrow>
                       (case heap st2 this of
                          None \<Rightarrow> Inl Dangling
                        | Some n2 \<Rightarrow>
                            let st3 = st2\<lparr>heap := (heap st2)
                                          (this \<mapsto> n2\<lparr>net' := net blueprint\<rparr>)\<rparr>
                            in Inr (st3\<lparr>named_scalars' :=
                                        (named_scalars' st3)(name \<mapsto> this)\<rparr>)))))"

subsection \<open>Operators\<close>

text \<open>
  The friend operators evaluate their two operands and wrap the result in a new object,
  a temporary that is returned by value. The order in which C++ evaluates the two operands
  is unspecified; \<open>evaluate_both\<close> takes them in the order in which the expression names
  them, which for \<^verbatim>\<open>operator*\<close> is \<^verbatim>\<open>rhs\<close> first. \<^verbatim>\<open>evaluate\<close> returns a reference to
  \<^verbatim>\<open>cache_\<close> or \<^verbatim>\<open>value_\<close> of a node that it leaves clean, and no evaluation writes either
  member of a clean node, so the value read through the first reference after the second
  call is the value that the first call returned.
\<close>

definition evaluate_both ::
  "'s scalar_ops \<Rightarrow> ('s, 'net, 'act, 'init) nn_ops \<Rightarrow> nat \<Rightarrow> ('s, 'net) state \<Rightarrow> nat \<Rightarrow> nat
     \<Rightarrow> ('s, 'net) state error + ('s \<times> 's \<times> ('s, 'net) state)" where
  "evaluate_both ops nn k st first second =
     (case evaluate ops nn k st first of
        Inl e \<Rightarrow> Inl e
      | Inr (x, st1) \<Rightarrow>
          (case evaluate ops nn k st1 second of
             Inl e \<Rightarrow> Inl e
           | Inr (y, st2) \<Rightarrow> Inr (x, y, st2)))"

definition operator_plus ::
  "'s scalar_ops \<Rightarrow> ('s, 'net, 'act, 'init) nn_ops \<Rightarrow> 's \<Rightarrow> nat \<Rightarrow> ('s, 'net) state \<Rightarrow> nat
     \<Rightarrow> nat \<Rightarrow> ('s, 'net) state error + (('s, 'net) NeuralScalar \<times> ('s, 'net) state)" where
  "operator_plus ops nn uninit k st lhs rhs =
     (case evaluate_both ops nn k st lhs rhs of
        Inl e \<Rightarrow> Inl e
      | Inr (l, r, st') \<Rightarrow> Inr (NeuralScalar_of_value ops nn uninit (s_add ops l r), st'))"

definition operator_minus ::
  "'s scalar_ops \<Rightarrow> ('s, 'net, 'act, 'init) nn_ops \<Rightarrow> 's \<Rightarrow> nat \<Rightarrow> ('s, 'net) state \<Rightarrow> nat
     \<Rightarrow> nat \<Rightarrow> ('s, 'net) state error + (('s, 'net) NeuralScalar \<times> ('s, 'net) state)" where
  "operator_minus ops nn uninit k st lhs rhs =
     (case evaluate_both ops nn k st lhs rhs of
        Inl e \<Rightarrow> Inl e
      | Inr (l, r, st') \<Rightarrow> Inr (NeuralScalar_of_value ops nn uninit (s_sub ops l r), st'))"

definition operator_times ::
  "'s scalar_ops \<Rightarrow> ('s, 'net, 'act, 'init) nn_ops \<Rightarrow> 's \<Rightarrow> nat \<Rightarrow> ('s, 'net) state \<Rightarrow> nat
     \<Rightarrow> nat \<Rightarrow> ('s, 'net) state error + (('s, 'net) NeuralScalar \<times> ('s, 'net) state)" where
  "operator_times ops nn uninit k st lhs rhs =
     (case evaluate_both ops nn k st rhs lhs of
        Inl e \<Rightarrow> Inl e
      | Inr (r, l, st') \<Rightarrow> Inr (NeuralScalar_of_value ops nn uninit (s_mul ops r l), st'))"

definition operator_divide ::
  "'s scalar_ops \<Rightarrow> ('s, 'net, 'act, 'init) nn_ops \<Rightarrow> 's \<Rightarrow> nat \<Rightarrow> ('s, 'net) state \<Rightarrow> nat
     \<Rightarrow> nat \<Rightarrow> ('s, 'net) state error + (('s, 'net) NeuralScalar \<times> ('s, 'net) state)" where
  "operator_divide ops nn uninit k st lhs rhs =
     (case evaluate_both ops nn k st lhs rhs of
        Inl e \<Rightarrow> Inl e
      | Inr (l, r, st') \<Rightarrow> Inr (NeuralScalar_of_value ops nn uninit (s_div ops l r), st'))"

text \<open>
  The five comparisons differ in the operator of \<^verbatim>\<open>Scalar\<close> that they apply:
  \<open>compare rel\<close> is \<^verbatim>\<open>lhs.evaluate() rel rhs.evaluate()\<close>.
\<close>

definition compare ::
  "('s \<Rightarrow> 's \<Rightarrow> bool) \<Rightarrow> 's scalar_ops \<Rightarrow> ('s, 'net, 'act, 'init) nn_ops \<Rightarrow> nat
     \<Rightarrow> ('s, 'net) state \<Rightarrow> nat \<Rightarrow> nat \<Rightarrow> ('s, 'net) state error + (bool \<times> ('s, 'net) state)" where
  "compare rel ops nn k st lhs rhs =
     (case evaluate_both ops nn k st lhs rhs of
        Inl e \<Rightarrow> Inl e
      | Inr (l, r, st') \<Rightarrow> Inr (rel l r, st'))"

definition operator_less ::
  "'s scalar_ops \<Rightarrow> ('s, 'net, 'act, 'init) nn_ops \<Rightarrow> nat \<Rightarrow> ('s, 'net) state \<Rightarrow> nat \<Rightarrow> nat
     \<Rightarrow> ('s, 'net) state error + (bool \<times> ('s, 'net) state)" where
  "operator_less ops = compare (s_lt ops) ops"

definition operator_less_equal ::
  "'s scalar_ops \<Rightarrow> ('s, 'net, 'act, 'init) nn_ops \<Rightarrow> nat \<Rightarrow> ('s, 'net) state \<Rightarrow> nat \<Rightarrow> nat
     \<Rightarrow> ('s, 'net) state error + (bool \<times> ('s, 'net) state)" where
  "operator_less_equal ops = compare (s_le ops) ops"

definition operator_greater ::
  "'s scalar_ops \<Rightarrow> ('s, 'net, 'act, 'init) nn_ops \<Rightarrow> nat \<Rightarrow> ('s, 'net) state \<Rightarrow> nat \<Rightarrow> nat
     \<Rightarrow> ('s, 'net) state error + (bool \<times> ('s, 'net) state)" where
  "operator_greater ops = compare (s_gt ops) ops"

definition operator_equal ::
  "'s scalar_ops \<Rightarrow> ('s, 'net, 'act, 'init) nn_ops \<Rightarrow> nat \<Rightarrow> ('s, 'net) state \<Rightarrow> nat \<Rightarrow> nat
     \<Rightarrow> ('s, 'net) state error + (bool \<times> ('s, 'net) state)" where
  "operator_equal ops = compare (s_eq ops) ops"

definition operator_not_equal ::
  "'s scalar_ops \<Rightarrow> ('s, 'net, 'act, 'init) nn_ops \<Rightarrow> nat \<Rightarrow> ('s, 'net) state \<Rightarrow> nat \<Rightarrow> nat
     \<Rightarrow> ('s, 'net) state error + (bool \<times> ('s, 'net) state)" where
  "operator_not_equal ops = compare (s_ne ops) ops"

definition operator_negate ::
  "'s scalar_ops \<Rightarrow> ('s, 'net, 'act, 'init) nn_ops \<Rightarrow> 's \<Rightarrow> nat \<Rightarrow> ('s, 'net) state \<Rightarrow> nat
     \<Rightarrow> ('s, 'net) state error + (('s, 'net) NeuralScalar \<times> ('s, 'net) state)" where
  "operator_negate ops nn uninit k st rhs =
     (case evaluate ops nn k st rhs of
        Inl e \<Rightarrow> Inl e
      | Inr (r, st') \<Rightarrow> Inr (NeuralScalar_of_value ops nn uninit (s_neg ops r), st'))"

subsection \<open>Assignment\<close>

text \<open>
  The assignments write \<^verbatim>\<open>value_\<close> and \<^verbatim>\<open>is_dirty_\<close> of the object at \<open>this\<close>.
  \<open>store f v\<close> is the common tail: \<^verbatim>\<open>value_\<close> becomes \<open>f\<close> of the old \<^verbatim>\<open>value_\<close> and \<open>v\<close>, and
  \<^verbatim>\<open>is_dirty_\<close> becomes true. The compound assignments of \<^verbatim>\<open>Scalar\<close> are taken to be its
  binary operators followed by an assignment. \<open>of_double\<close> is the conversion
  \<^verbatim>\<open>Scalar(double)\<close>.
\<close>

definition store ::
  "('s \<Rightarrow> 's \<Rightarrow> 's) \<Rightarrow> 's \<Rightarrow> ('s, 'net) state \<Rightarrow> nat \<Rightarrow> ('s, 'net) state error + ('s, 'net) state" where
  "store f v st this =
     on_this st this (\<lambda>n. Inr (n\<lparr>value' := f (value' n) v, is_dirty' := True\<rparr>))"

definition store_evaluated ::
  "('s \<Rightarrow> 's \<Rightarrow> 's) \<Rightarrow> 's scalar_ops \<Rightarrow> ('s, 'net, 'act, 'init) nn_ops \<Rightarrow> nat
     \<Rightarrow> ('s, 'net) state \<Rightarrow> nat \<Rightarrow> nat \<Rightarrow> ('s, 'net) state error + ('s, 'net) state" where
  "store_evaluated f ops nn k st this rhs =
     (case evaluate ops nn k st rhs of
        Inl e \<Rightarrow> Inl e
      | Inr (v, st1) \<Rightarrow> store f v st1 this)"

definition operator_assign ::
  "'s scalar_ops \<Rightarrow> ('s, 'net, 'act, 'init) nn_ops \<Rightarrow> nat \<Rightarrow> ('s, 'net) state \<Rightarrow> nat \<Rightarrow> nat
     \<Rightarrow> ('s, 'net) state error + ('s, 'net) state" where
  "operator_assign ops = store_evaluated (\<lambda>old v. v) ops"

definition operator_assign_scalar ::
  "('s, 'net) state \<Rightarrow> nat \<Rightarrow> 's \<Rightarrow> ('s, 'net) state error + ('s, 'net) state" where
  "operator_assign_scalar st this rhs = store (\<lambda>old v. v) rhs st this"

definition operator_assign_double ::
  "('d \<Rightarrow> 's) \<Rightarrow> ('s, 'net) state \<Rightarrow> nat \<Rightarrow> 'd \<Rightarrow> ('s, 'net) state error + ('s, 'net) state" where
  "operator_assign_double of_double st this rhs = store (\<lambda>old v. v) (of_double rhs) st this"

definition operator_plus_assign ::
  "'s scalar_ops \<Rightarrow> ('s, 'net, 'act, 'init) nn_ops \<Rightarrow> nat \<Rightarrow> ('s, 'net) state \<Rightarrow> nat \<Rightarrow> nat
     \<Rightarrow> ('s, 'net) state error + ('s, 'net) state" where
  "operator_plus_assign ops = store_evaluated (s_add ops) ops"

definition operator_minus_assign ::
  "'s scalar_ops \<Rightarrow> ('s, 'net, 'act, 'init) nn_ops \<Rightarrow> nat \<Rightarrow> ('s, 'net) state \<Rightarrow> nat \<Rightarrow> nat
     \<Rightarrow> ('s, 'net) state error + ('s, 'net) state" where
  "operator_minus_assign ops = store_evaluated (s_sub ops) ops"

definition operator_times_assign ::
  "'s scalar_ops \<Rightarrow> ('s, 'net, 'act, 'init) nn_ops \<Rightarrow> nat \<Rightarrow> ('s, 'net) state \<Rightarrow> nat \<Rightarrow> nat
     \<Rightarrow> ('s, 'net) state error + ('s, 'net) state" where
  "operator_times_assign ops = store_evaluated (s_mul ops) ops"

definition operator_divide_assign ::
  "'s scalar_ops \<Rightarrow> ('s, 'net, 'act, 'init) nn_ops \<Rightarrow> nat \<Rightarrow> ('s, 'net) state \<Rightarrow> nat \<Rightarrow> nat
     \<Rightarrow> ('s, 'net) state error + ('s, 'net) state" where
  "operator_divide_assign ops = store_evaluated (s_div ops) ops"

subsection \<open>What an evaluation may change\<close>

text \<open>
  \<open>wiring\<close> collects the members of a node that no evaluation writes. \<open>node_step n n'\<close>
  relates a node before and after an evaluation: it is untouched, or it was dirty and is
  now clean with the same wiring, its cache being its value if it has no inputs.
  \<open>evaluation_frame\<close> lifts this to states: the same objects, each related by
  \<open>node_step\<close>, and the registries and the diagnostic stream unchanged.
\<close>

definition wiring ::
  "('s, 'net) NeuralScalar \<Rightarrow> 's \<times> ptr list \<times> 'net \<times> string \<times> bool" where
  "wiring n = (value' n, inputs' n, net' n, name' n, is_residual n)"

definition node_step :: "('s, 'net) NeuralScalar \<Rightarrow> ('s, 'net) NeuralScalar \<Rightarrow> bool" where
  "node_step n n' \<longleftrightarrow>
     n' = n \<or>
     (is_dirty' n \<and> \<not> is_dirty' n' \<and> wiring n' = wiring n \<and>
      (inputs' n = [] \<longrightarrow> cache' n' = value' n))"

definition evaluation_frame :: "('s, 'net) state \<Rightarrow> ('s, 'net) state \<Rightarrow> bool" where
  "evaluation_frame st st' \<longleftrightarrow>
     named_scalars' st' = named_scalars' st \<and> blueprints' st' = blueprints' st \<and>
     cerr st' = cerr st \<and>
     (\<forall>p. (heap st p = None \<longrightarrow> heap st' p = None) \<and>
          (\<forall>n. heap st p = Some n \<longrightarrow> (\<exists>n'. heap st' p = Some n' \<and> node_step n n')))"

subsection \<open>States that a program can reach\<close>

text \<open>
  \<open>cache_valid\<close> is the invariant behind the dirty flag for a node without inputs: when
  it is clean, its cache is its value.
\<close>

definition cache_valid :: "('s, 'net) NeuralScalar \<Rightarrow> bool" where
  "cache_valid n \<longleftrightarrow> (inputs' n = [] \<and> \<not> is_dirty' n \<longrightarrow> cache' n = value' n)"

definition initial_state :: "('s, 'net) state" where
  "initial_state =
     \<lparr>heap = Map.empty, named_scalars' = Map.empty, blueprints' = Map.empty,
      static_inputs = None, static_output = None, cerr = [], compute_calls = []\<rparr>"

definition construct ::
  "('s, 'net) state \<Rightarrow> nat \<Rightarrow> ('s, 'net) NeuralScalar \<Rightarrow> ('s, 'net) state" where
  "construct st p n = st\<lparr>heap := (heap st)(p \<mapsto> n)\<rparr>"

text \<open>
  The states that client code can produce from the start of the program, through the
  public interface of the class: the constructors (the two that take a list of inputs
  build a network from its length or from a specification, here any network), the implicit
  copy constructor, writes to the public member \<^verbatim>\<open>is_residual\<close> and through the reference
  that \<^verbatim>\<open>net()\<close> returns, and the member functions. The friend operators change the state
  by the evaluations they make; the assignment operators by an evaluation followed by
  \<open>store\<close>.
\<close>

inductive reachable ::
  "'s scalar_ops \<Rightarrow> ('s, 'net, 'act, 'init) nn_ops \<Rightarrow> ('s, 'net) state \<Rightarrow> bool"
  for ops :: "'s scalar_ops" and nn :: "('s, 'net, 'act, 'init) nn_ops" where
  start: "reachable ops nn initial_state"
| new_default:
    "reachable ops nn st \<Longrightarrow> heap st p = None \<Longrightarrow>
     reachable ops nn (construct st p (NeuralScalar_default ops nn uninit))"
| new_of_value:
    "reachable ops nn st \<Longrightarrow> heap st p = None \<Longrightarrow>
     reachable ops nn (construct st p (NeuralScalar_of_value ops nn uninit v))"
| new_of_inputs:
    "reachable ops nn st \<Longrightarrow> heap st p = None \<Longrightarrow>
     reachable ops nn
       (construct st p ((NeuralScalar_default ops nn uninit)\<lparr>inputs' := ins, net' := w\<rparr>))"
| new_copy:
    "reachable ops nn st \<Longrightarrow> heap st p = None \<Longrightarrow> heap st q = Some n \<Longrightarrow>
     reachable ops nn (construct st p n)"
| write_is_residual:
    "reachable ops nn st \<Longrightarrow> heap st p = Some n \<Longrightarrow>
     reachable ops nn (construct st p (n\<lparr>is_residual := b\<rparr>))"
| write_net:
    "reachable ops nn st \<Longrightarrow> heap st p = Some n \<Longrightarrow>
     reachable ops nn (construct st p (n\<lparr>net' := w\<rparr>))"
| call_initialize:
    "reachable ops nn st \<Longrightarrow> on_this st p (\<lambda>n. Inr (initialize nn m n)) = Inr st' \<Longrightarrow>
     reachable ops nn st'"
| call_set_dirty:
    "reachable ops nn st \<Longrightarrow> on_this st p (\<lambda>n. Inr (set_dirty nn n)) = Inr st' \<Longrightarrow>
     reachable ops nn st'"
| call_connect:
    "reachable ops nn st \<Longrightarrow> on_this st p (connect nn scalar activation) = Inr st' \<Longrightarrow>
     reachable ops nn st'"
| call_add_blueprint:
    "reachable ops nn st \<Longrightarrow> reachable ops nn (add_blueprint st name names w)"
| call_assign:
    "reachable ops nn st \<Longrightarrow> assign st p name = Inr st' \<Longrightarrow> reachable ops nn st'"
| call_evaluate:
    "reachable ops nn st \<Longrightarrow> evaluate ops nn k st p = Inr (r, st') \<Longrightarrow> reachable ops nn st'"
| call_store:
    "reachable ops nn st \<Longrightarrow> store f v st p = Inr st' \<Longrightarrow> reachable ops nn st'"

subsection \<open>Reading results\<close>

text \<open>
  \<open>and_then\<close> runs a call on the state that an earlier call has returned and passes an
  error on. \<open>returned\<close> and \<open>state_after\<close> are the scalar and the state that a call
  returns; \<open>node_at\<close>, \<open>registered\<close> and \<open>inputs_passed\<close> read an object, an entry of the
  name registry and the input vectors of all calls of \<^verbatim>\<open>compute\<close> so far from a state that
  was reached without an error.
\<close>

definition and_then ::
  "'e + 'a \<Rightarrow> ('a \<Rightarrow> 'e + 'b) \<Rightarrow> 'e + 'b" where
  "and_then r f = (case r of Inl e \<Rightarrow> Inl e | Inr x \<Rightarrow> f x)"

definition returned :: "'e + ('a \<times> 'st) \<Rightarrow> 'a option" where
  "returned r = (case r of Inl e \<Rightarrow> None | Inr (v, st) \<Rightarrow> Some v)"

definition state_after :: "'e + ('a \<times> 'st) \<Rightarrow> 'e + 'st" where
  "state_after r = (case r of Inl e \<Rightarrow> Inl e | Inr (v, st) \<Rightarrow> Inr st)"

definition node_at :: "'e + ('s, 'net) state \<Rightarrow> nat \<Rightarrow> ('s, 'net) NeuralScalar option" where
  "node_at r p = (case r of Inl e \<Rightarrow> None | Inr st \<Rightarrow> heap st p)"

definition registered :: "'e + ('s, 'net) state \<Rightarrow> string \<Rightarrow> ptr" where
  "registered r name = (case r of Inl e \<Rightarrow> None | Inr st \<Rightarrow> retrieve st name)"

definition inputs_passed :: "'e + ('s, 'net) state \<Rightarrow> 's list list" where
  "inputs_passed r = (case r of Inl e \<Rightarrow> [] | Inr st \<Rightarrow> map (\<lambda>c. fst (snd c)) (compute_calls st))"

text \<open>
  For the loop of \<^verbatim>\<open>assign\<close>: \<open>unresolved\<close> is the first input name of a blueprint that
  the registry does not hold, if there is one, and \<open>resolved_prefix\<close> the pointers found
  for the names before it.
\<close>

definition unresolved :: "('s, 'net) state \<Rightarrow> string list \<Rightarrow> string option" where
  "unresolved st names = find (\<lambda>x. named_scalars' st x = None) names"

definition resolved_prefix :: "('s, 'net) state \<Rightarrow> string list \<Rightarrow> ptr list" where
  "resolved_prefix st names =
     map (named_scalars' st) (takeWhile (\<lambda>x. named_scalars' st x \<noteq> None) names)"

subsection \<open>A sample instance\<close>

text \<open>
  For concrete runs: the integers as scalar domain, and a network that records its
  input width and the widths of its layers, and whose every output is the
  identity-weighted sum of its inputs. Neither is code of the repository.
\<close>

definition int_scalar :: "int scalar_ops" where
  "int_scalar =
     \<lparr>s_zero = 0, s_default = 0, s_add = (\<lambda>a b. a + b), s_sub = (\<lambda>a b. a - b),
      s_mul = (\<lambda>a b. a * b), s_div = (\<lambda>a b. a div b), s_neg = (\<lambda>a. - a),
      s_lt = (\<lambda>a b. a < b), s_le = (\<lambda>a b. a \<le> b), s_gt = (\<lambda>a b. b < a),
      s_eq = (\<lambda>a b. a = b), s_ne = (\<lambda>a b. a \<noteq> b)\<rparr>"

record sum_net =
  in_dim :: int
  widths :: "int list"

definition sum_out_dim :: "sum_net \<Rightarrow> int" where
  "sum_out_dim w = (if widths w = [] then in_dim w else last (widths w))"

definition sum_network :: "(int, sum_net, unit, unit) nn_ops" where
  "sum_network =
     \<lparr>nn_default = \<lparr>in_dim = 0, widths = []\<rparr>,
      nn_input_dim = in_dim,
      nn_output_dim = sum_out_dim,
      nn_num_layers = (\<lambda>w. 1 + int (length (widths w))),
      nn_set_input_dim = (\<lambda>d w. w\<lparr>in_dim := d\<rparr>),
      nn_add_linear_layer = (\<lambda>a units w. w\<lparr>widths := widths w @ [units]\<rparr>),
      nn_initialize = (\<lambda>m w. w),
      nn_compute = (\<lambda>w xs ys. replicate (nat (sum_out_dim w)) (sum_list xs)),
      NN_INIT_XAVIER = ()\<rparr>"

definition new_int :: "int \<Rightarrow> (int, sum_net) NeuralScalar" where
  "new_int v = NeuralScalar_of_value int_scalar sum_network 0 v"

text \<open>
  Five objects: \<open>A\<close> at address 0 with the inputs \<open>B\<close> and \<open>C\<close>, \<open>B\<close> at 1 holding 2,
  \<open>C\<close> at 2 with the inputs \<open>D\<close> and \<open>E\<close>, \<open>D\<close> at 3 holding 3 and \<open>E\<close> at 4 holding 4,
  wired with \<^verbatim>\<open>connect\<close>.
\<close>

definition nested_graph :: "(int, sum_net) state error + (int, sum_net) state" where
  "nested_graph =
     and_then (and_then (and_then (and_then
       (Inr (construct (construct (construct (construct (construct initial_state
               0 (new_int 0)) 1 (new_int 2)) 2 (new_int 0)) 3 (new_int 3)) 4 (new_int 4)))
       (\<lambda>st. on_this st 2 (connect sum_network (Some 3) ())))
       (\<lambda>st. on_this st 2 (connect sum_network (Some 4) ())))
       (\<lambda>st. on_this st 0 (connect sum_network (Some 1) ())))
       (\<lambda>st. on_this st 0 (connect sum_network (Some 2) ()))"

text \<open>
  Three objects: \<open>X\<close> at address 0 holding 5, \<open>N1\<close> at 1 with the input \<open>X\<close>, and \<open>N2\<close>
  at 2 with a null input.
\<close>

definition null_graph :: "(int, sum_net) state error + (int, sum_net) state" where
  "null_graph =
     and_then (and_then
       (Inr (construct (construct (construct initial_state
               0 (new_int 5)) 1 (new_int 0)) 2 (new_int 0)))
       (\<lambda>st. on_this st 1 (connect sum_network (Some 0) ())))
       (\<lambda>st. on_this st 2 (connect sum_network None ()))"

text \<open>
  Two nodes named \<open>x\<close>: \<open>P\<close> at address 3, holding 1, with the input \<open>X1\<close> (at 1,
  holding 100), takes the name first; \<open>Q\<close> at address 2, holding 10, with the input \<open>X0\<close>
  (at 0, holding 5), takes it second and is the one the registry then names.
\<close>

definition alias_graph :: "(int, sum_net) state error + (int, sum_net) state" where
  "alias_graph =
     and_then (and_then (and_then (and_then
       (Inr (construct (construct (construct (construct initial_state
               0 (new_int 5)) 1 (new_int 100)) 2 (new_int 10)) 3 (new_int 1)))
       (\<lambda>st. on_this st 2 (connect sum_network (Some 0) ())))
       (\<lambda>st. on_this st 3 (connect sum_network (Some 1) ())))
       (\<lambda>st. assign st 3 ''x''))
       (\<lambda>st. assign st 2 ''x'')"

text \<open>
  The same two nodes named \<open>x\<close>, where \<open>Q\<close> has afterwards taken the name \<open>z\<close> and
  \<open>R\<close> at address 5, with the input \<open>X2\<close> (at 4, holding 1000), has taken \<open>z\<close> after it:
  the registry maps \<open>x\<close> to \<open>Q\<close> and the name \<open>z\<close> of \<open>Q\<close> to \<open>R\<close>.
\<close>

definition chain_graph :: "(int, sum_net) state error + (int, sum_net) state" where
  "chain_graph =
     and_then (and_then (and_then (and_then (and_then (and_then (and_then
       (Inr (construct (construct (construct (construct (construct (construct initial_state
               0 (new_int 5)) 1 (new_int 100)) 2 (new_int 10)) 3 (new_int 1))
               4 (new_int 1000)) 5 (new_int 0)))
       (\<lambda>st. on_this st 2 (connect sum_network (Some 0) ())))
       (\<lambda>st. on_this st 3 (connect sum_network (Some 1) ())))
       (\<lambda>st. on_this st 5 (connect sum_network (Some 4) ())))
       (\<lambda>st. assign st 3 ''x''))
       (\<lambda>st. assign st 2 ''x''))
       (\<lambda>st. assign st 2 ''z''))
       (\<lambda>st. assign st 5 ''z'')"

text \<open>
  A blueprint for the name \<open>y\<close> with the one input name \<open>x\<close>; \<open>X\<close> at address 0 holds
  the name \<open>x\<close>, and \<open>P\<close> at address 2 already has the input \<open>Z\<close> (at 1) when it is assigned
  the name \<open>y\<close>.
\<close>

definition blueprint_net :: sum_net where
  "blueprint_net = \<lparr>in_dim = 1, widths = [1]\<rparr>"

definition blueprint_graph :: "(int, sum_net) state error + (int, sum_net) state" where
  "blueprint_graph =
     and_then (and_then
       (Inr (add_blueprint (construct (construct (construct initial_state
               0 (new_int 5)) 1 (new_int 6)) 2 (new_int 7)) ''y'' [''x''] blueprint_net))
       (\<lambda>st. on_this st 2 (connect sum_network (Some 1) ())))
       (\<lambda>st. assign st 0 ''x'')"

text \<open>
  A recursion budget that suffices for the graphs above, and the evaluation of the node
  at an address with it.
\<close>

definition enough :: nat where
  "enough = Suc (Suc (Suc (Suc (Suc 0))))"

definition evaluate_int ::
  "(int, sum_net) state error + (int, sum_net) state \<Rightarrow> nat
     \<Rightarrow> (int, sum_net) state error + (int \<times> (int, sum_net) state)" where
  "evaluate_int r p = and_then r (\<lambda>st. evaluate int_scalar sum_network enough st p)"

text \<open>
  A state with the blueprint for \<open>y\<close> in which no node holds the name \<open>x\<close>, and a clean
  node whose network has a last layer of width zero.
\<close>

definition unwired_state :: "(int, sum_net) state" where
  "unwired_state =
     add_blueprint (construct initial_state 0 (new_int 5)) ''y'' [''x''] blueprint_net"

definition clean_node :: "(int, sum_net) NeuralScalar" where
  "clean_node =
     \<lparr>value' = 3, cache' = 3, is_dirty' = False, inputs' = [],
      net' = \<lparr>in_dim = 0, widths = [0]\<rparr>, name' = [], is_residual = True\<rparr>"

section \<open>Properties\<close>

subsection \<open>An evaluation writes caches and dirty flags only\<close>

lemma node_step_refl: "node_step n n"
  by (simp add: node_step_def)

lemma node_step_trans: "node_step n n1 \<Longrightarrow> node_step n1 n2 \<Longrightarrow> node_step n n2"
  unfolding node_step_def by auto

lemma evaluation_frame_refl: "evaluation_frame st st"
  by (simp add: evaluation_frame_def node_step_refl)

lemma evaluation_frame_node:
  "evaluation_frame st st' \<Longrightarrow> heap st p = Some n \<Longrightarrow>
   \<exists>n'. heap st' p = Some n' \<and> node_step n n'"
  by (simp add: evaluation_frame_def)

lemma evaluation_frame_none:
  "evaluation_frame st st' \<Longrightarrow> heap st p = None \<Longrightarrow> heap st' p = None"
  by (simp add: evaluation_frame_def)

lemma evaluation_frame_trans:
  assumes a: "evaluation_frame st st1" and b: "evaluation_frame st1 st2"
  shows "evaluation_frame st st2"
proof -
  have "\<exists>n2. heap st2 p = Some n2 \<and> node_step n n2" if "heap st p = Some n" for p n
  proof -
    from evaluation_frame_node [OF a that]
    obtain n1 where n1: "heap st1 p = Some n1" "node_step n n1" by blast
    from evaluation_frame_node [OF b n1(1)]
    obtain n2 where n2: "heap st2 p = Some n2" "node_step n1 n2" by blast
    from n1 n2 show ?thesis by (auto intro: node_step_trans)
  qed
  moreover have "heap st2 p = None" if "heap st p = None" for p
    using that a b by (simp add: evaluation_frame_none)
  ultimately show ?thesis using a b by (simp add: evaluation_frame_def)
qed

lemma evaluation_frame_statics:
  "evaluation_frame st (st\<lparr>static_inputs := a\<rparr>)"
  "evaluation_frame st (st\<lparr>static_output := b, compute_calls := c\<rparr>)"
  "evaluation_frame st (st\<lparr>static_output := b\<rparr>)"
  by (simp_all add: evaluation_frame_def node_step_refl)

lemma evaluation_frame_write_after:
  assumes f: "evaluation_frame st st1" and n: "heap st p = Some n" and s: "node_step n n'"
  shows "evaluation_frame st (st1\<lparr>heap := (heap st1)(p \<mapsto> n')\<rparr>)"
  using assms by (auto simp add: evaluation_frame_def)

lemma evaluation_frame_write:
  assumes "heap st p = Some n" and "node_step n n'"
  shows "evaluation_frame st (st\<lparr>heap := (heap st)(p \<mapsto> n')\<rparr>)"
  using evaluation_frame_refl assms by (rule evaluation_frame_write_after)

lemma node_step_recache:
  assumes "node_step n n1" and "is_dirty' n" and "inputs' n \<noteq> []"
  shows "node_step n (n1\<lparr>cache' := c, is_dirty' := False\<rparr>)"
  using assms unfolding node_step_def by (auto simp add: wiring_def)

lemma node_step_no_inputs:
  assumes "is_dirty' n"
  shows "node_step n (n\<lparr>is_dirty' := False, cache' := value' n\<rparr>)"
  using assms unfolding node_step_def by (simp add: wiring_def)

lemma evaluate_frame_all:
  "(\<forall>r st'. evaluate ops nn k st this = Inr (r, st') \<longrightarrow> evaluation_frame st st')"
  "(\<forall>r st'. evaluate_network ops nn k st this = Inr (r, st') \<longrightarrow> evaluation_frame st st')"
  "(\<forall>st'. eval_inputs ops nn k st ps i = Inr st' \<longrightarrow> evaluation_frame st st')"
proof (induction ops nn k st this and ops nn k st this and ops nn k st ps i
       rule: evaluate_evaluate_network_eval_inputs.induct)
  case (1 ops nn st this)
  then show ?case by simp
next
  case (2 ops nn k st this)
  show ?case
  proof (intro allI impI)
    fix r st'
    assume ev: "evaluate ops nn (Suc k) st this = Inr (r, st')"
    then obtain n where n: "heap st this = Some n"
      by (cases "heap st this") simp_all
    show "evaluation_frame st st'"
    proof (cases "is_dirty' n")
      case False
      with ev n show ?thesis by (simp add: evaluation_frame_refl)
    next
      case dirty: True
      show ?thesis
      proof (cases "inputs' n = []")
        case True
        with ev n dirty have "st' = st\<lparr>heap := (heap st)
               (this \<mapsto> n\<lparr>is_dirty' := False, cache' := value' n\<rparr>)\<rparr>"
          by auto
        with n dirty show ?thesis
          by (simp add: evaluation_frame_write node_step_no_inputs)
      next
        case False
        show ?thesis
        proof (cases "evaluate_network ops nn k st this")
          case (Inl e)
          with ev n dirty False show ?thesis by simp
        next
          case (Inr res)
          obtain out st1 where res: "res = (out, st1)" by (cases res)
          note net = Inr [unfolded res]
          from "2.IH" [OF n] dirty False net have f1: "evaluation_frame st st1" by blast
          from evaluation_frame_node [OF f1 n]
          obtain n1 where n1: "heap st1 this = Some n1" and s1: "node_step n n1" by blast
          from ev n dirty False net n1 have st': "st' = st1\<lparr>heap := (heap st1)
                 (this \<mapsto> n1\<lparr>cache' := r, is_dirty' := False\<rparr>)\<rparr>"
            by (auto simp add: Let_def)
          from s1 dirty False
          have "node_step n (n1\<lparr>cache' := r, is_dirty' := False\<rparr>)"
            by (rule node_step_recache)
          with f1 n show ?thesis unfolding st' by (rule evaluation_frame_write_after)
        qed
      qed
    qed
  qed
next
  case (3 ops nn st this)
  then show ?case by simp
next
  case (4 ops nn k st this)
  show ?case
  proof (intro allI impI)
    fix r st'
    assume ev: "evaluate_network ops nn (Suc k) st this = Inr (r, st')"
    then obtain n where n: "heap st this = Some n"
      by (cases "heap st this") simp_all
    show "evaluation_frame st st'"
    proof (cases "name' n \<noteq> [] \<and> named_scalars' st (name' n) \<noteq> Some this")
      case True
      with ev n obtain other where o: "named_scalars' st (name' n) = Some other"
        and ev': "evaluate_network ops nn k st other = Inr (r, st')"
        by (cases "named_scalars' st (name' n)") auto
      from "4.IH"(1) [OF n True o] ev' show ?thesis by blast
    next
      case False
      let ?st0 = "declare_inputs ops (length (inputs' n)) st"
      have f0: "evaluation_frame st ?st0"
        by (simp add: declare_inputs_def evaluation_frame_statics evaluation_frame_refl
                 split: option.splits)
      show ?thesis
      proof (cases "eval_inputs ops nn k ?st0 (inputs' n) 0")
        case (Inl e)
        with ev n False show ?thesis by simp
      next
        case (Inr st1)
        from "4.IH"(2) [OF n False] Inr have f1: "evaluation_frame ?st0 st1" by blast
        have f2: "evaluation_frame st1 (declare_output ops st1)"
          by (simp add: declare_output_def evaluation_frame_statics evaluation_frame_refl
                   split: option.splits)
        have f3: "evaluation_frame (declare_output ops st1)
                    (call_compute nn (net' n) (declare_output ops st1))"
          by (simp add: call_compute_def Let_def evaluation_frame_statics)
        from ev n False Inr have "st' = call_compute nn (net' n) (declare_output ops st1)"
          by (auto simp add: Let_def split: list.splits)
        with f0 f1 f2 f3 show ?thesis by (blast intro: evaluation_frame_trans)
      qed
    qed
  qed
next
  case (5 ops nn k st i)
  then show ?case by (simp add: evaluation_frame_refl)
next
  case (6 ops nn k st ps i)
  then show ?case by simp
next
  case (7 ops nn k st p ps i)
  show ?case
  proof (intro allI impI)
    fix st'
    assume ev: "eval_inputs ops nn k st (Some p # ps) i = Inr st'"
    show "evaluation_frame st st'"
    proof (cases "evaluate ops nn k st p")
      case (Inl e)
      with ev show ?thesis by simp
    next
      case (Inr res)
      obtain v st1 where res: "res = (v, st1)" by (cases res)
      note e1 = Inr [unfolded res]
      from "7.IH"(1) e1 have f1: "evaluation_frame st st1" by blast
      show ?thesis
      proof (cases "static_inputs st1")
        case None
        with ev e1 show ?thesis by simp
      next
        case (Some xs)
        show ?thesis
        proof (cases "i < length xs")
          case False
          with ev e1 Some show ?thesis by simp
        next
          case True
          with ev e1 Some have e2:
            "eval_inputs ops nn k (st1\<lparr>static_inputs := Some (xs[i := v])\<rparr>) ps (Suc i) = Inr st'"
            by simp
          from "7.IH"(2) [OF e1 refl Some True] e2
          have f2: "evaluation_frame (st1\<lparr>static_inputs := Some (xs[i := v])\<rparr>) st'" by blast
          from f1 evaluation_frame_statics(1) f2 show ?thesis
            by (blast intro: evaluation_frame_trans)
        qed
      qed
    qed
  qed
qed

lemma evaluate_frame:
  "evaluate ops nn k st this = Inr (r, st') \<Longrightarrow> evaluation_frame st st'"
  by (rule evaluate_frame_all(1) [rule_format])

lemma evaluate_network_frame:
  "evaluate_network ops nn k st this = Inr (r, st') \<Longrightarrow> evaluation_frame st st'"
  by (rule evaluate_frame_all(2) [rule_format])

lemma eval_inputs_frame:
  "eval_inputs ops nn k st ps i = Inr st' \<Longrightarrow> evaluation_frame st st'"
  by (rule evaluate_frame_all(3) [rule_format])

lemma node_step_wiring: "node_step n n' \<Longrightarrow> wiring n' = wiring n"
  unfolding node_step_def by auto

lemma node_step_cache_valid: "node_step n n' \<Longrightarrow> cache_valid n \<Longrightarrow> cache_valid n'"
  unfolding node_step_def cache_valid_def by (auto simp add: wiring_def)

lemma node_step_clean: "node_step n n' \<Longrightarrow> \<not> is_dirty' n \<Longrightarrow> n' = n"
  unfolding node_step_def by auto

subsection \<open>The loop and the result of assign\<close>

lemma assign_inputs_eq:
  "heap st this = Some n \<Longrightarrow>
   assign_inputs st this names =
     (case unresolved st names of
        None \<Rightarrow> Inr (st\<lparr>heap := (heap st)
                  (this \<mapsto> n\<lparr>inputs' := inputs' n @ map (named_scalars' st) names\<rparr>)\<rparr>)
      | Some x \<Rightarrow> Inl (AssertFailed
                  (st\<lparr>heap := (heap st)
                        (this \<mapsto> n\<lparr>inputs' := inputs' n @ resolved_prefix st names\<rparr>),
                      cerr := cerr st @ [requested_before_assigned x]\<rparr>)))"
proof (induction names arbitrary: st n)
  case Nil
  then have "st\<lparr>heap := (heap st)(this \<mapsto> n)\<rparr> = st"
    by (simp add: fun_upd_idem)
  with Nil show ?case by (simp add: unresolved_def)
next
  case (Cons x xs)
  show ?case
  proof (cases "named_scalars' st x")
    case None
    with Cons.prems have "st\<lparr>heap := (heap st)(this \<mapsto> n)\<rparr> = st"
      by (simp add: fun_upd_idem)
    with None Cons.prems show ?thesis
      by (simp add: unresolved_def resolved_prefix_def retrieve_def)
  next
    case (Some q)
    let ?st = "st\<lparr>heap := (heap st)(this \<mapsto> n\<lparr>inputs' := inputs' n @ [Some q]\<rparr>)\<rparr>"
    have h: "heap ?st this = Some (n\<lparr>inputs' := inputs' n @ [Some q]\<rparr>)" by simp
    have step: "assign_inputs st this (x # xs) = assign_inputs ?st this xs"
      using Some Cons.prems by (simp add: retrieve_def)
    show ?thesis
      unfolding step Cons.IH [OF h]
      using Some
      by (simp add: unresolved_def resolved_prefix_def fun_upd_def split: option.splits
               cong: if_cong)
  qed
qed

lemma assign_eq:
  "heap st this = Some n \<Longrightarrow>
   assign st this name =
     (case blueprints' st name of
        None \<Rightarrow> Inr (st\<lparr>heap := (heap st)(this \<mapsto> n\<lparr>name' := name\<rparr>),
                       named_scalars' := (named_scalars' st)(name \<mapsto> this)\<rparr>)
      | Some blueprint \<Rightarrow>
          (case unresolved st (input_names blueprint) of
             None \<Rightarrow> Inr (st\<lparr>heap := (heap st)
                      (this \<mapsto> n\<lparr>name' := name,
                                 inputs' := inputs' n @
                                   map (named_scalars' st) (input_names blueprint),
                                 net' := net blueprint\<rparr>),
                       named_scalars' := (named_scalars' st)(name \<mapsto> this)\<rparr>)
           | Some x \<Rightarrow> Inl (AssertFailed
                  (st\<lparr>heap := (heap st)
                        (this \<mapsto> n\<lparr>name' := name,
                                   inputs' := inputs' n @
                                     resolved_prefix st (input_names blueprint)\<rparr>),
                      cerr := cerr st @ [requested_before_assigned x]\<rparr>))))"
proof (cases "blueprints' st name")
  case None
  then show ?thesis if "heap st this = Some n" using that by (simp add: assign_def)
next
  case (Some blueprint)
  let ?st1 = "st\<lparr>heap := (heap st)(this \<mapsto> n\<lparr>name' := name\<rparr>)\<rparr>"
  have h: "heap ?st1 this = Some (n\<lparr>name' := name\<rparr>)" by simp
  have u: "unresolved ?st1 names = unresolved st names"
    and r: "resolved_prefix ?st1 names = resolved_prefix st names" for names
    by (simp_all add: unresolved_def resolved_prefix_def)
  show ?thesis if n: "heap st this = Some n"
    using n Some assign_inputs_eq [OF h, of "input_names blueprint"]
    by (simp add: assign_def u r split: option.splits)
qed

text \<open>
  The definitions that a run of the sample instance unfolds.
\<close>

lemmas sample_defs = and_then_def construct_def initial_state_def new_int_def
  NeuralScalar_of_value_def NeuralScalar_default_def on_this_def connect_def set_dirty_def
  initialize_def int_scalar_def sum_network_def sum_out_dim_def Let_def
  declare_inputs_def declare_output_def inputs_vector_def output_vector_def call_compute_def

subsection \<open>The cache of a node without inputs\<close>

lemma evaluation_frame_back:
  assumes f: "evaluation_frame st st'" and n': "heap st' p = Some n'"
  shows "\<exists>n. heap st p = Some n \<and> node_step n n'"
proof (cases "heap st p")
  case None
  with f have "heap st' p = None" by (rule evaluation_frame_none)
  with n' show ?thesis by simp
next
  case (Some n)
  from evaluation_frame_node [OF f Some] n' Some show ?thesis by auto
qed

lemma on_this_back:
  assumes "on_this st q f = Inr st'" and "heap st' p = Some n'"
  shows "(p \<noteq> q \<and> heap st p = Some n') \<or> (p = q \<and> (\<exists>n. heap st q = Some n \<and> f n = Inr n'))"
  using assms by (auto simp add: on_this_def split: option.splits sum.splits if_splits)

lemma cache_valid_dirty: "is_dirty' n \<Longrightarrow> cache_valid n"
  by (simp add: cache_valid_def)

lemma cache_valid_connect: "connect nn scalar activation n = Inr n' \<Longrightarrow> cache_valid n'"
  by (auto simp add: connect_def cache_valid_def set_dirty_def initialize_def Let_def
           split: if_splits)

lemma cache_valid_set_dirty: "cache_valid n \<Longrightarrow> cache_valid (set_dirty nn n)"
  by (simp add: cache_valid_def set_dirty_def)

lemma cache_valid_initialize: "cache_valid n \<Longrightarrow> cache_valid (initialize nn m n)"
  by (simp add: cache_valid_def initialize_def)

lemma assign_back:
  assumes a: "assign st q name = Inr st'" and n': "heap st' p = Some n'"
  shows "\<exists>n. heap st p = Some n \<and> value' n' = value' n \<and> cache' n' = cache' n \<and>
             is_dirty' n' = is_dirty' n \<and> (inputs' n' = [] \<longrightarrow> inputs' n = [])"
proof (cases "heap st q")
  case None
  with a show ?thesis by (simp add: assign_def)
next
  case (Some m)
  from a n' show ?thesis
    unfolding assign_eq [OF Some]
    using Some by (cases "p = q") (auto split: option.splits)
qed

lemma reachable_cache_valid:
  "reachable ops nn st \<Longrightarrow> heap st p = Some n \<Longrightarrow> cache_valid n"
proof (induction arbitrary: p n rule: reachable.induct)
  case start
  then show ?case by (simp add: initial_state_def)
next
  case (new_default st q uninit)
  then show ?case
    by (cases "p = q") (auto simp add: construct_def NeuralScalar_default_def cache_valid_def)
next
  case (new_of_value st q uninit v)
  then show ?case
    by (cases "p = q") (auto simp add: construct_def NeuralScalar_of_value_def cache_valid_def)
next
  case (new_of_inputs st q uninit ins w)
  then show ?case
    by (cases "p = q") (auto simp add: construct_def NeuralScalar_default_def cache_valid_def)
next
  case (new_copy st q r m)
  then show ?case by (cases "p = q") (auto simp add: construct_def)
next
  case (write_is_residual st q m b)
  from write_is_residual.IH [OF write_is_residual.hyps(2)] write_is_residual.IH [of p n]
    write_is_residual.prems
  show ?case by (cases "p = q") (auto simp add: construct_def cache_valid_def)
next
  case (write_net st q m w)
  from write_net.IH [OF write_net.hyps(2)] write_net.IH [of p n] write_net.prems
  show ?case by (cases "p = q") (auto simp add: construct_def cache_valid_def)
next
  case (call_initialize st q m st')
  from on_this_back [OF call_initialize.hyps(2) call_initialize.prems] call_initialize.IH
  show ?case by (auto intro: cache_valid_initialize)
next
  case (call_set_dirty st q st')
  from on_this_back [OF call_set_dirty.hyps(2) call_set_dirty.prems] call_set_dirty.IH
  show ?case by (auto intro: cache_valid_set_dirty)
next
  case (call_connect st q scalar activation st')
  from on_this_back [OF call_connect.hyps(2) call_connect.prems] call_connect.IH
  show ?case by (auto intro: cache_valid_connect)
next
  case (call_add_blueprint st name names w)
  then show ?case by (simp add: add_blueprint_def)
next
  case (call_assign st q name st')
  from assign_back [OF call_assign.hyps(2) call_assign.prems]
  obtain m where m: "heap st p = Some m" "value' n = value' m" "cache' n = cache' m"
    "is_dirty' n = is_dirty' m" "inputs' n = [] \<longrightarrow> inputs' m = []" by blast
  from call_assign.IH [OF m(1)] m show ?case by (auto simp add: cache_valid_def)
next
  case (call_evaluate st k q r st')
  from evaluate_frame [OF call_evaluate.hyps(2)] call_evaluate.prems
  obtain m where "heap st p = Some m" "node_step m n"
    using evaluation_frame_back by blast
  with call_evaluate.IH show ?case by (blast intro: node_step_cache_valid)
next
  case (call_store st f v q st')
  from on_this_back [OF call_store.hyps(2) [unfolded store_def] call_store.prems]
    call_store.IH
  show ?case by (auto intro: cache_valid_dirty)
qed

subsection \<open>Evaluating a clean node and a node without inputs\<close>

lemma evaluate_clean_eq:
  "heap st this = Some n \<Longrightarrow> \<not> is_dirty' n \<Longrightarrow>
   evaluate ops nn (Suc k) st this = Inr (cache' n, st)"
  by simp

text \<open>
  C3. A clean node evaluates to its cache and the state is left as it was, whatever the
  recursion budget; a second evaluation, run on the state that the first one leaves, returns
  the same scalar and again leaves the state, and with it the list of calls of
  \<^verbatim>\<open>compute\<close>, as it was.
\<close>

theorem evaluate_clean:
  assumes "heap st this = Some n" and "\<not> is_dirty' n"
  shows "evaluate ops nn (Suc k) st this = Inr (cache' n, st) \<and>
         and_then (evaluate ops nn (Suc k) st this)
           (\<lambda>(r, st'). evaluate ops nn (Suc j) st' this) = Inr (cache' n, st)"
  using assms by (simp add: and_then_def)

theorem evaluate_clean_witness:
  "\<exists>st n. and_then nested_graph
              (\<lambda>st. evaluate int_scalar sum_network (Suc (Suc (Suc (Suc (Suc 0))))) st 0)
            = Inr (10, st) \<and>
          heap st 0 = Some n \<and> \<not> is_dirty' n \<and> inputs' n = [Some 1, Some 2] \<and>
          length (compute_calls st) = 2 \<and>
          evaluate int_scalar sum_network (Suc 0) st 0 = Inr (10, st) \<and>
          and_then (evaluate int_scalar sum_network (Suc 0) st 0)
            (\<lambda>(r, st'). evaluate int_scalar sum_network (Suc 0) st' 0) = Inr (10, st)"
proof -
  obtain st n where
    run: "and_then nested_graph
            (\<lambda>st. evaluate int_scalar sum_network (Suc (Suc (Suc (Suc (Suc 0))))) st 0)
          = Inr (10, st)" and
    n: "heap st 0 = Some n" and clean: "\<not> is_dirty' n" and c: "cache' n = 10" and
    i: "inputs' n = [Some 1, Some 2]" and l: "length (compute_calls st) = 2"
    by (simp add: nested_graph_def sample_defs)
  from evaluate_clean [OF n clean, of int_scalar sum_network 0 0] run n clean c i l
  show ?thesis by auto
qed

text \<open>
  C2. In every state that a program can reach, a node whose list of inputs is empty
  evaluates to its stored value, clean or dirty and whatever \<^verbatim>\<open>is_residual\<close> says, and
  the evaluation calls \<^verbatim>\<open>compute\<close> of no network. The default constructor and the
  constructor from a scalar give such a node, holding zero and the scalar given.
\<close>

theorem evaluate_no_inputs:
  assumes "reachable ops nn st" and "heap st this = Some n" and "inputs' n = []"
  shows "(\<exists>st'. evaluate ops nn (Suc k) st this = Inr (value' n, st') \<and>
               compute_calls st' = compute_calls st) \<and>
         inputs' (NeuralScalar_of_value ops nn uninit v) = [] \<and>
         value' (NeuralScalar_of_value ops nn uninit v) = v \<and>
         inputs' (NeuralScalar_default ops nn uninit) = [] \<and>
         value' (NeuralScalar_default ops nn uninit) = s_zero ops"
proof -
  from reachable_cache_valid [OF assms(1,2)] have "cache_valid n" .
  with assms(2,3) have "\<exists>st'. evaluate ops nn (Suc k) st this = Inr (value' n, st') \<and>
               compute_calls st' = compute_calls st"
    by (cases "is_dirty' n") (simp_all add: cache_valid_def)
  then show ?thesis
    by (simp add: NeuralScalar_of_value_def NeuralScalar_default_def)
qed

theorem evaluate_no_inputs_witness:
  "reachable int_scalar sum_network
     (construct (construct initial_state 0 (new_int 7)) 0 ((new_int 7)\<lparr>is_residual := False\<rparr>)) \<and>
   (\<exists>st'. evaluate int_scalar sum_network (Suc 0)
            (construct (construct initial_state 0 (new_int 7)) 0
               ((new_int 7)\<lparr>is_residual := False\<rparr>)) 0 = Inr (7, st') \<and>
          compute_calls st' = [])"
proof -
  let ?st1 = "construct initial_state 0 (new_int 7)"
  let ?st2 = "construct ?st1 0 ((new_int 7)\<lparr>is_residual := False\<rparr>)"
  have "heap (initial_state :: (int, sum_net) state) 0 = None"
    by (simp add: initial_state_def)
  with reachable.start have "reachable int_scalar sum_network ?st1"
    unfolding new_int_def by (rule reachable.new_of_value)
  moreover have "heap ?st1 0 = Some (new_int 7)" by (simp add: construct_def)
  ultimately have r: "reachable int_scalar sum_network ?st2"
    by (rule reachable.write_is_residual)
  have h: "heap ?st2 0 = Some ((new_int 7)\<lparr>is_residual := False\<rparr>)"
    by (simp add: construct_def)
  have i: "inputs' ((new_int 7)\<lparr>is_residual := False\<rparr>) = []"
    by (simp add: new_int_def NeuralScalar_of_value_def)
  from evaluate_no_inputs [OF r h i, of 0 0 0] r show ?thesis
    by (simp add: new_int_def NeuralScalar_of_value_def construct_def initial_state_def)
qed

text \<open>
  C10. \<^verbatim>\<open>assign\<close> leaves \<^verbatim>\<open>value_\<close>, \<^verbatim>\<open>cache_\<close> and \<^verbatim>\<open>is_dirty_\<close> of its node as they
  were: a node that was clean is clean afterwards, and every evaluation of it returns the
  cache it had before, with or without a blueprint consumed.
\<close>

theorem assign_keeps_cache:
  assumes "heap st this = Some n" and "assign st this name = Inr st'"
  shows "\<exists>n'. heap st' this = Some n' \<and> value' n' = value' n \<and> cache' n' = cache' n \<and>
              is_dirty' n' = is_dirty' n \<and>
              (\<not> is_dirty' n \<longrightarrow> evaluate ops nn (Suc k) st' this = Inr (cache' n, st'))"
proof -
  from assms(2) obtain n' where n': "heap st' this = Some n'"
    unfolding assign_eq [OF assms(1)] by (auto split: option.splits)
  from assign_back [OF assms(2) n'] assms(1) n'
  have "value' n' = value' n \<and> cache' n' = cache' n \<and> is_dirty' n' = is_dirty' n" by simp
  with n' show ?thesis by simp
qed

theorem assign_keeps_cache_witness:
  "\<exists>st n st' n'.
     and_then blueprint_graph (\<lambda>st. evaluate int_scalar sum_network (Suc (Suc (Suc 0))) st 2)
       = Inr (13, st) \<and>
     heap st 2 = Some n \<and> \<not> is_dirty' n \<and> inputs' n = [Some 1] \<and>
     assign st 2 ''y'' = Inr st' \<and>
     heap st' 2 = Some n' \<and> inputs' n' = [Some 1, Some 0] \<and> net' n' = blueprint_net \<and>
     cache' n' = 13 \<and> \<not> is_dirty' n' \<and>
     evaluate int_scalar sum_network (Suc 0) st' 2 = Inr (13, st')"
proof -
  obtain st n where
    run: "and_then blueprint_graph
            (\<lambda>st. evaluate int_scalar sum_network (Suc (Suc (Suc 0))) st 2) = Inr (13, st)" and
    n: "heap st 2 = Some n" and clean: "\<not> is_dirty' n" and c: "cache' n = 13" and
    i: "inputs' n = [Some 1]" and
    b: "blueprints' st ''y'' = Some \<lparr>input_names = [''x''], net = blueprint_net\<rparr>" and
    x: "named_scalars' st ''x'' = Some 0"
    by (simp add: blueprint_graph_def sample_defs assign_def add_blueprint_def retrieve_def)
  from b x have u: "unresolved st [''x''] = None" by (simp add: unresolved_def)
  obtain st' where a: "assign st 2 ''y'' = Inr st'"
    unfolding assign_eq [OF n] using b u by simp
  from a have h: "\<exists>n'. heap st' 2 = Some n' \<and> inputs' n' = [Some 1, Some 0] \<and>
                       net' n' = blueprint_net"
    unfolding assign_eq [OF n] using b u x i by auto
  from assign_keeps_cache [OF n a, of int_scalar sum_network 0] clean c h run n i a
  show ?thesis by auto
qed

subsection \<open>Evaluating a dirty node that has inputs\<close>

lemma declare_heap [simp]:
  "heap (declare_inputs ops c st) = heap st"
  "heap (declare_output ops st) = heap st"
  "heap (call_compute nn w st) = heap st"
  "named_scalars' (declare_inputs ops c st) = named_scalars' st"
  by (simp_all add: declare_inputs_def declare_output_def call_compute_def Let_def
               split: option.splits)

lemma call_compute_output:
  "output_vector (call_compute nn w st) = nn_compute nn w (inputs_vector st) (output_vector st)"
  "compute_calls (call_compute nn w st) =
     compute_calls st @ [(w, inputs_vector st, nn_compute nn w (inputs_vector st) (output_vector st))]"
  by (simp_all add: call_compute_def output_vector_def Let_def)

lemma declare_output_other:
  "inputs_vector (declare_output ops st) = inputs_vector st"
  "compute_calls (declare_output ops st) = compute_calls st"
  by (simp_all add: declare_output_def inputs_vector_def split: option.splits)

lemma evaluate_network_own:
  assumes n: "heap st this = Some n"
    and na: "name' n = [] \<or> named_scalars' st (name' n) = Some this"
    and loop: "eval_inputs ops nn k (declare_inputs ops (length (inputs' n)) st) (inputs' n) 0
                 = Inr st1"
    and out: "nn_compute nn (net' n) (inputs_vector st1) (output_vector (declare_output ops st1))
                 = y # ys"
  shows "evaluate_network ops nn (Suc k) st this
           = Inr (y, call_compute nn (net' n) (declare_output ops st1))"
proof -
  have "output_vector (call_compute nn (net' n) (declare_output ops st1)) = y # ys"
    using out by (simp add: call_compute_output declare_output_other)
  with n na loop show ?thesis by (auto simp add: Let_def)
qed

lemma evaluate_with_network:
  assumes n: "heap st this = Some n" and d: "is_dirty' n" and i: "inputs' n \<noteq> []"
    and net: "evaluate_network ops nn k st this = Inr (y, st2)"
  shows "\<exists>n1. heap st2 this = Some n1 \<and> node_step n n1 \<and>
              evaluate ops nn (Suc k) st this =
                Inr (if is_residual n then s_add ops (value' n) y else y,
                     st2\<lparr>heap := (heap st2)
                       (this \<mapsto> n1\<lparr>cache' := (if is_residual n then s_add ops (value' n) y else y),
                                  is_dirty' := False\<rparr>)\<rparr>)"
proof -
  from evaluation_frame_node [OF evaluate_network_frame [OF net] n]
  obtain n1 where n1: "heap st2 this = Some n1" and s: "node_step n n1" by blast
  from node_step_wiring [OF s] have w: "is_residual n1 = is_residual n" "value' n1 = value' n"
    by (simp_all add: wiring_def)
  from n d i net n1 w s show ?thesis by (simp add: Let_def)
qed

text \<open>
  C1. A dirty node with inputs that is not an alias: once the loop over its inputs has
  returned and \<^verbatim>\<open>compute\<close> has written \<open>y\<close> as the first element of the output vector,
  \<^verbatim>\<open>evaluate\<close> returns \<open>value_ + y\<close> if \<^verbatim>\<open>is_residual\<close> is set and \<open>y\<close> otherwise, the
  cache holds the scalar returned, the node is clean, its other members are as before, and
  the call of \<^verbatim>\<open>compute\<close> made last is the one of the node's own network.
\<close>

theorem evaluate_dirty_network:
  assumes "heap st this = Some n" and "is_dirty' n" and "inputs' n \<noteq> []"
    and "name' n = [] \<or> named_scalars' st (name' n) = Some this"
    and "eval_inputs ops nn k (declare_inputs ops (length (inputs' n)) st) (inputs' n) 0
           = Inr st1"
    and "nn_compute nn (net' n) (inputs_vector st1) (output_vector (declare_output ops st1))
           = y # ys"
  shows "\<exists>st' n'.
           evaluate ops nn (Suc (Suc k)) st this =
             Inr (if is_residual n then s_add ops (value' n) y else y, st') \<and>
           heap st' this = Some n' \<and>
           cache' n' = (if is_residual n then s_add ops (value' n) y else y) \<and>
           \<not> is_dirty' n' \<and> wiring n' = wiring n \<and>
           compute_calls st' = compute_calls st1 @ [(net' n, inputs_vector st1, y # ys)]"
proof -
  let ?st2 = "call_compute nn (net' n) (declare_output ops st1)"
  from evaluate_network_own [OF assms(1,4,5,6)]
  have net: "evaluate_network ops nn (Suc k) st this = Inr (y, ?st2)" .
  from evaluate_with_network [OF assms(1,2,3) net]
  obtain n1 where n1: "heap ?st2 this = Some n1" and s: "node_step n n1" and
    ev: "evaluate ops nn (Suc (Suc k)) st this =
           Inr (if is_residual n then s_add ops (value' n) y else y,
                ?st2\<lparr>heap := (heap ?st2)
                  (this \<mapsto> n1\<lparr>cache' := (if is_residual n then s_add ops (value' n) y else y),
                             is_dirty' := False\<rparr>)\<rparr>)"
    by blast
  from node_step_wiring [OF s]
  have w: "wiring (n1\<lparr>cache' := c, is_dirty' := False\<rparr>) = wiring n" for c
    by (simp add: wiring_def)
  have c: "compute_calls ?st2 = compute_calls st1 @ [(net' n, inputs_vector st1, y # ys)]"
    using assms(6) by (simp add: call_compute_output declare_output_other)
  show ?thesis
    unfolding ev using w c by simp
qed

theorem evaluate_dirty_network_witness:
  "\<exists>st n st1 st'.
     nested_graph = Inr st \<and> heap st 2 = Some n \<and> is_dirty' n \<and>
     inputs' n = [Some 3, Some 4] \<and> name' n = [] \<and> is_residual n \<and> value' n = 0 \<and>
     eval_inputs int_scalar sum_network (Suc 0)
       (declare_inputs int_scalar (length (inputs' n)) st) (inputs' n) 0 = Inr st1 \<and>
     nn_compute sum_network (net' n) (inputs_vector st1)
       (output_vector (declare_output int_scalar st1)) = [7] \<and>
     evaluate int_scalar sum_network (Suc (Suc (Suc 0))) st 2 = Inr (7, st') \<and>
     map_option cache' (heap st' 2) = Some 7 \<and>
     map_option is_dirty' (heap st' 2) = Some False \<and>
     compute_calls st' = [(net' n, [3, 4], [7])]"
proof -
  obtain st n where g: "nested_graph = Inr st" and n: "heap st 2 = Some n" and
    d: "is_dirty' n" and i: "inputs' n = [Some 3, Some 4]" and nm: "name' n = []" and
    r: "is_residual n" and v: "value' n = 0" and w: "net' n = \<lparr>in_dim = 2, widths = [1]\<rparr>" and
    s: "static_inputs st = None" and h3: "heap st 3 = Some (new_int 3)" and
    h4: "heap st 4 = Some (new_int 4)"
    by (simp add: nested_graph_def sample_defs)
  obtain st1 where
    loop: "eval_inputs int_scalar sum_network (Suc 0)
             (declare_inputs int_scalar (length (inputs' n)) st) (inputs' n) 0 = Inr st1" and
    xs: "inputs_vector st1 = [3, 4]" and c1: "compute_calls st1 = compute_calls st"
    using i s h3 h4 by (simp add: sample_defs)
  have c0: "compute_calls st = []"
    using g by (auto simp add: nested_graph_def sample_defs)
  have out: "nn_compute sum_network (net' n) (inputs_vector st1)
               (output_vector (declare_output int_scalar st1)) = [7]"
    using xs w by (simp add: sum_network_def sum_out_dim_def)
  have i': "inputs' n \<noteq> []" using i by simp
  from evaluate_dirty_network [OF n d i' disjI1 [OF nm] loop out]
  obtain st' n' where
    "evaluate int_scalar sum_network (Suc (Suc (Suc 0))) st 2 =
       Inr (if is_residual n then s_add int_scalar (value' n) 7 else 7, st')"
    "heap st' 2 = Some n'"
    "cache' n' = (if is_residual n then s_add int_scalar (value' n) 7 else 7)"
    "\<not> is_dirty' n'"
    "compute_calls st' = compute_calls st1 @ [(net' n, inputs_vector st1, [7])]"
    by blast
  with g n d i nm r v loop out xs c1 c0 show ?thesis
    by (auto simp add: int_scalar_def)
qed

subsection \<open>Evaluating a node whose name another node holds\<close>

lemma evaluate_network_own_eq:
  assumes "heap st this = Some n"
    and "name' n = [] \<or> named_scalars' st (name' n) = Some this"
  shows "evaluate_network ops nn (Suc k) st this =
           (case eval_inputs ops nn k (declare_inputs ops (length (inputs' n)) st) (inputs' n) 0 of
              Inl e \<Rightarrow> Inl e
            | Inr st1 \<Rightarrow>
                (case output_vector (call_compute nn (net' n) (declare_output ops st1)) of
                   [] \<Rightarrow> Inl OutOfRange
                 | y # ys \<Rightarrow> Inr (y, call_compute nn (net' n) (declare_output ops st1))))"
  using assms by (auto simp add: Let_def split: sum.splits)

lemma evaluate_network_alias:
  assumes "heap st this = Some n" and "name' n \<noteq> []"
    and "named_scalars' st (name' n) = Some other" and "other \<noteq> this"
  shows "evaluate_network ops nn (Suc k) st this = evaluate_network ops nn k st other"
  using assms by simp

lemma evaluate_network_own_only:
  assumes m: "heap st this = Some m"
    and own: "name' m = [] \<or> named_scalars' st (name' m) = Some this"
    and ev: "evaluate_network ops nn k st this = Inr (y, st1)"
  shows "\<exists>j st0 ys. k = Suc j \<and>
           eval_inputs ops nn j (declare_inputs ops (length (inputs' m)) st) (inputs' m) 0
             = Inr st0 \<and>
           nn_compute nn (net' m) (inputs_vector st0) (output_vector (declare_output ops st0))
             = y # ys \<and>
           st1 = call_compute nn (net' m) (declare_output ops st0)"
proof -
  from ev obtain j where k: "k = Suc j" by (cases k) simp_all
  let ?loop = "eval_inputs ops nn j (declare_inputs ops (length (inputs' m)) st) (inputs' m) 0"
  from ev obtain st0 where loop: "?loop = Inr st0"
    unfolding k evaluate_network_own_eq [OF m own] by (cases ?loop) simp_all
  let ?st2 = "call_compute nn (net' m) (declare_output ops st0)"
  from ev obtain y' ys where out: "output_vector ?st2 = y' # ys"
    unfolding k evaluate_network_own_eq [OF m own] loop
    by (cases "output_vector ?st2") simp_all
  from ev have "y' = y" and st1: "st1 = ?st2"
    unfolding k evaluate_network_own_eq [OF m own] loop by (simp_all add: out)
  with out have "nn_compute nn (net' m) (inputs_vector st0)
                   (output_vector (declare_output ops st0)) = y # ys"
    by (simp add: call_compute_output declare_output_other)
  with k loop st1 show ?thesis by blast
qed

lemma evaluate_network_alias_only:
  assumes m: "heap st this = Some m" and nm: "name' m \<noteq> []"
    and reg: "named_scalars' st (name' m) = Some further" and ne: "further \<noteq> this"
    and ev: "evaluate_network ops nn k st this = Inr res"
  shows "\<exists>j. k = Suc j \<and> evaluate_network ops nn j st further = Inr res"
proof -
  from ev obtain j where k: "k = Suc j" by (cases k) simp_all
  from ev have "evaluate_network ops nn j st further = Inr res"
    unfolding k evaluate_network_alias [OF m nm reg ne] .
  with k show ?thesis by blast
qed

text \<open>
  C4, as the code has it. A dirty node with inputs whose name the registry maps to another
  node: the network evaluation alone is delegated, to \<^verbatim>\<open>evaluate_network_\<close> of the other
  node, which resolves the name of the other node in the same way. Once that has returned
  \<open>y\<close>, \<^verbatim>\<open>evaluate\<close> returns this node's own \<open>value_ + y\<close> if \<^verbatim>\<open>is_residual\<close> is set and
  \<open>y\<close> otherwise, stores the scalar in this node's cache and leaves this node clean;
  nothing else is written after the delegated call. A later evaluation returns the cache
  and leaves the state as it is, whatever the registry then maps the name to. Where the
  other node has no name or holds its own name, \<open>y\<close> is the first output of the network of
  the other node on the vector that the loop over the inputs of the other node leaves, and
  that call of \<^verbatim>\<open>compute\<close> is the last one made. Where the name of the other node is held
  by a further node, the call is passed on to that node.
\<close>

theorem evaluate_alias:
  assumes "heap st this = Some n" and "is_dirty' n" and "inputs' n \<noteq> []"
    and "name' n \<noteq> []" and "named_scalars' st (name' n) = Some other" and "other \<noteq> this"
    and "evaluate_network ops nn k st other = Inr (y, st1)"
  shows "(\<exists>st' n'.
           evaluate ops nn (Suc (Suc k)) st this =
             Inr (if is_residual n then s_add ops (value' n) y else y, st') \<and>
           heap st' this = Some n' \<and>
           cache' n' = (if is_residual n then s_add ops (value' n) y else y) \<and>
           \<not> is_dirty' n' \<and> wiring n' = wiring n \<and>
           (\<forall>p. p \<noteq> this \<longrightarrow> heap st' p = heap st1 p) \<and>
           compute_calls st' = compute_calls st1 \<and>
           (\<forall>registry j.
              evaluate ops nn (Suc j) (st'\<lparr>named_scalars' := registry\<rparr>) this =
                Inr (if is_residual n then s_add ops (value' n) y else y,
                     st'\<lparr>named_scalars' := registry\<rparr>))) \<and>
         (\<forall>m. heap st other = Some m \<longrightarrow>
              name' m = [] \<or> named_scalars' st (name' m) = Some other \<longrightarrow>
              (\<exists>j st0 ys. k = Suc j \<and>
                 eval_inputs ops nn j (declare_inputs ops (length (inputs' m)) st) (inputs' m) 0
                   = Inr st0 \<and>
                 nn_compute nn (net' m) (inputs_vector st0)
                   (output_vector (declare_output ops st0)) = y # ys \<and>
                 compute_calls st1 = compute_calls st0 @ [(net' m, inputs_vector st0, y # ys)])) \<and>
         (\<forall>m further. heap st other = Some m \<longrightarrow> name' m \<noteq> [] \<longrightarrow>
              named_scalars' st (name' m) = Some further \<longrightarrow> further \<noteq> other \<longrightarrow>
              (\<exists>j. k = Suc j \<and> evaluate_network ops nn j st further = Inr (y, st1)))"
proof (intro conjI allI impI)
  have net: "evaluate_network ops nn (Suc k) st this = Inr (y, st1)"
    unfolding evaluate_network_alias [OF assms(1,4,5,6)] by (rule assms(7))
  from evaluate_with_network [OF assms(1,2,3) net]
  obtain n1 where n1: "heap st1 this = Some n1" and s: "node_step n n1" and
    ev: "evaluate ops nn (Suc (Suc k)) st this =
           Inr (if is_residual n then s_add ops (value' n) y else y,
                st1\<lparr>heap := (heap st1)
                  (this \<mapsto> n1\<lparr>cache' := (if is_residual n then s_add ops (value' n) y else y),
                             is_dirty' := False\<rparr>)\<rparr>)"
    by blast
  from node_step_wiring [OF s]
  have w: "wiring (n1\<lparr>cache' := c, is_dirty' := False\<rparr>) = wiring n" for c
    by (simp add: wiring_def)
  show "\<exists>st' n'.
           evaluate ops nn (Suc (Suc k)) st this =
             Inr (if is_residual n then s_add ops (value' n) y else y, st') \<and>
           heap st' this = Some n' \<and>
           cache' n' = (if is_residual n then s_add ops (value' n) y else y) \<and>
           \<not> is_dirty' n' \<and> wiring n' = wiring n \<and>
           (\<forall>p. p \<noteq> this \<longrightarrow> heap st' p = heap st1 p) \<and>
           compute_calls st' = compute_calls st1 \<and>
           (\<forall>registry j.
              evaluate ops nn (Suc j) (st'\<lparr>named_scalars' := registry\<rparr>) this =
                Inr (if is_residual n then s_add ops (value' n) y else y,
                     st'\<lparr>named_scalars' := registry\<rparr>))"
    unfolding ev using w by simp
next
  fix m
  assume m: "heap st other = Some m"
    and own: "name' m = [] \<or> named_scalars' st (name' m) = Some other"
  from evaluate_network_own_only [OF m own assms(7)]
  obtain j st0 ys where "k = Suc j"
    "eval_inputs ops nn j (declare_inputs ops (length (inputs' m)) st) (inputs' m) 0 = Inr st0"
    "nn_compute nn (net' m) (inputs_vector st0) (output_vector (declare_output ops st0))
       = y # ys"
    "st1 = call_compute nn (net' m) (declare_output ops st0)"
    by blast
  then show "\<exists>j st0 ys. k = Suc j \<and>
                 eval_inputs ops nn j (declare_inputs ops (length (inputs' m)) st) (inputs' m) 0
                   = Inr st0 \<and>
                 nn_compute nn (net' m) (inputs_vector st0)
                   (output_vector (declare_output ops st0)) = y # ys \<and>
                 compute_calls st1 = compute_calls st0 @ [(net' m, inputs_vector st0, y # ys)]"
    by (simp add: call_compute_output declare_output_other)
next
  fix m further
  assume "heap st other = Some m" "name' m \<noteq> []"
    "named_scalars' st (name' m) = Some further" "further \<noteq> other"
  then show "\<exists>j. k = Suc j \<and> evaluate_network ops nn j st further = Inr (y, st1)"
    using assms(7) by (rule evaluate_network_alias_only)
qed

theorem evaluate_alias_witness:
  "(\<exists>st n m y st1 st'.
     alias_graph = Inr st \<and> heap st 3 = Some n \<and> is_dirty' n \<and> inputs' n = [Some 1] \<and>
     name' n = ''x'' \<and> named_scalars' st ''x'' = Some 2 \<and> value' n = 1 \<and> is_residual n \<and>
     heap st 2 = Some m \<and> named_scalars' st (name' m) = Some 2 \<and>
     evaluate_network int_scalar sum_network (Suc (Suc (Suc 0))) st 2 = Inr (y, st1) \<and> y = 5 \<and>
     compute_calls st1 = [(net' m, [5], [5])] \<and>
     evaluate int_scalar sum_network (Suc (Suc (Suc (Suc (Suc 0))))) st 3 = Inr (6, st') \<and>
     map_option cache' (heap st' 3) = Some 6 \<and>
     map_option is_dirty' (heap st' 3) = Some False \<and>
     heap st' 2 = heap st1 2 \<and>
     evaluate int_scalar sum_network (Suc 0) (st'\<lparr>named_scalars' := [''x'' \<mapsto> 0]\<rparr>) 3 =
       Inr (6, st'\<lparr>named_scalars' := [''x'' \<mapsto> 0]\<rparr>)) \<and>
   (\<exists>st n m st1 st'.
     chain_graph = Inr st \<and> heap st 3 = Some n \<and> is_dirty' n \<and> inputs' n = [Some 1] \<and>
     name' n = ''x'' \<and> named_scalars' st ''x'' = Some 2 \<and> value' n = 1 \<and> is_residual n \<and>
     heap st 2 = Some m \<and> name' m = ''z'' \<and> named_scalars' st ''z'' = Some 5 \<and>
     evaluate_network int_scalar sum_network (Suc (Suc (Suc 0))) st 2 = Inr (1000, st1) \<and>
     evaluate_network int_scalar sum_network (Suc (Suc 0)) st 5 = Inr (1000, st1) \<and>
     evaluate int_scalar sum_network (Suc (Suc (Suc (Suc (Suc 0))))) st 3 = Inr (1001, st'))"
proof (intro conjI)
  obtain st n m where g: "alias_graph = Inr st" and n: "heap st 3 = Some n" and
    d: "is_dirty' n" and i: "inputs' n = [Some 1]" and nm: "name' n = ''x''" and
    reg: "named_scalars' st ''x'' = Some 2" and v: "value' n = 1" and r: "is_residual n" and
    m: "heap st 2 = Some m" and mn: "name' m = ''x''" and c0: "compute_calls st = []"
    by (simp add: alias_graph_def sample_defs assign_def)
  obtain st1 where
    net: "evaluate_network int_scalar sum_network (Suc (Suc (Suc 0))) st 2 = Inr (5, st1)"
    using g by (auto simp add: alias_graph_def sample_defs assign_def)
  have i': "inputs' n \<noteq> []" and nm': "name' n \<noteq> []" and
    reg': "named_scalars' st (name' n) = Some 2" and ne: "(2::nat) \<noteq> 3" and
    own: "name' m = [] \<or> named_scalars' st (name' m) = Some 2"
    using i nm reg mn by simp_all
  note a = evaluate_alias [OF n d i' nm' reg' ne net]
  from a obtain st' n' where e:
    "evaluate int_scalar sum_network (Suc (Suc (Suc (Suc (Suc 0))))) st 3 =
       Inr (if is_residual n then s_add int_scalar (value' n) 5 else 5, st')"
    "heap st' 3 = Some n'"
    "cache' n' = (if is_residual n then s_add int_scalar (value' n) 5 else 5)"
    "\<not> is_dirty' n'"
    "\<forall>p. p \<noteq> 3 \<longrightarrow> heap st' p = heap st1 p"
    "\<forall>registry j.
        evaluate int_scalar sum_network (Suc j) (st'\<lparr>named_scalars' := registry\<rparr>) 3 =
          Inr (if is_residual n then s_add int_scalar (value' n) 5 else 5,
               st'\<lparr>named_scalars' := registry\<rparr>)"
    by blast
  from a m own obtain j st0 ys where o:
    "Suc (Suc (Suc 0)) = Suc j"
    "eval_inputs int_scalar sum_network j
       (declare_inputs int_scalar (length (inputs' m)) st) (inputs' m) 0 = Inr st0"
    "nn_compute sum_network (net' m) (inputs_vector st0)
       (output_vector (declare_output int_scalar st0)) = 5 # ys"
    "compute_calls st1 = compute_calls st0 @ [(net' m, inputs_vector st0, 5 # ys)]"
    by blast
  have "compute_calls st1 = [(net' m, [5], [5])]"
    using o g m by (auto simp add: alias_graph_def sample_defs assign_def)
  with e g n d i nm reg v r net m mn
  show "\<exists>st n m y st1 st'.
     alias_graph = Inr st \<and> heap st 3 = Some n \<and> is_dirty' n \<and> inputs' n = [Some 1] \<and>
     name' n = ''x'' \<and> named_scalars' st ''x'' = Some 2 \<and> value' n = 1 \<and> is_residual n \<and>
     heap st 2 = Some m \<and> named_scalars' st (name' m) = Some 2 \<and>
     evaluate_network int_scalar sum_network (Suc (Suc (Suc 0))) st 2 = Inr (y, st1) \<and> y = 5 \<and>
     compute_calls st1 = [(net' m, [5], [5])] \<and>
     evaluate int_scalar sum_network (Suc (Suc (Suc (Suc (Suc 0))))) st 3 = Inr (6, st') \<and>
     map_option cache' (heap st' 3) = Some 6 \<and>
     map_option is_dirty' (heap st' 3) = Some False \<and>
     heap st' 2 = heap st1 2 \<and>
     evaluate int_scalar sum_network (Suc 0) (st'\<lparr>named_scalars' := [''x'' \<mapsto> 0]\<rparr>) 3 =
       Inr (6, st'\<lparr>named_scalars' := [''x'' \<mapsto> 0]\<rparr>)"
    by (auto simp add: int_scalar_def)
next
  obtain st n m where g: "chain_graph = Inr st" and n: "heap st 3 = Some n" and
    d: "is_dirty' n" and i: "inputs' n = [Some 1]" and nm: "name' n = ''x''" and
    reg: "named_scalars' st ''x'' = Some 2" and v: "value' n = 1" and r: "is_residual n" and
    m: "heap st 2 = Some m" and mn: "name' m = ''z''" and
    regz: "named_scalars' st ''z'' = Some 5"
    by (simp add: chain_graph_def sample_defs assign_def)
  obtain st1 where
    net: "evaluate_network int_scalar sum_network (Suc (Suc (Suc 0))) st 2 = Inr (1000, st1)"
    using g by (auto simp add: chain_graph_def sample_defs assign_def)
  have i': "inputs' n \<noteq> []" and nm': "name' n \<noteq> []" and
    reg': "named_scalars' st (name' n) = Some 2" and ne: "(2::nat) \<noteq> 3" and
    mn': "name' m \<noteq> []" and regz': "named_scalars' st (name' m) = Some 5" and
    ne': "(5::nat) \<noteq> 2"
    using i nm reg mn regz by simp_all
  note a = evaluate_alias [OF n d i' nm' reg' ne net]
  from a obtain st' where e:
    "evaluate int_scalar sum_network (Suc (Suc (Suc (Suc (Suc 0))))) st 3 =
       Inr (if is_residual n then s_add int_scalar (value' n) 1000 else 1000, st')"
    by blast
  from a m mn' regz' ne' obtain j where
    "Suc (Suc (Suc 0)) = Suc j"
    "evaluate_network int_scalar sum_network j st 5 = Inr (1000, st1)"
    by blast
  then have "evaluate_network int_scalar sum_network (Suc (Suc 0)) st 5 = Inr (1000, st1)"
    by simp
  with e g n d i nm reg v r net m mn regz
  show "\<exists>st n m st1 st'.
     chain_graph = Inr st \<and> heap st 3 = Some n \<and> is_dirty' n \<and> inputs' n = [Some 1] \<and>
     name' n = ''x'' \<and> named_scalars' st ''x'' = Some 2 \<and> value' n = 1 \<and> is_residual n \<and>
     heap st 2 = Some m \<and> name' m = ''z'' \<and> named_scalars' st ''z'' = Some 5 \<and>
     evaluate_network int_scalar sum_network (Suc (Suc (Suc 0))) st 2 = Inr (1000, st1) \<and>
     evaluate_network int_scalar sum_network (Suc (Suc 0)) st 5 = Inr (1000, st1) \<and>
     evaluate int_scalar sum_network (Suc (Suc (Suc (Suc (Suc 0))))) st 3 = Inr (1001, st')"
    by (auto simp add: int_scalar_def)
qed

text \<open>
  C4, as the claim states it, fails on the two nodes named \<open>x\<close>: \<open>P\<close> at address 3 is
  dirty, has an input and the name \<open>x\<close>, which the registry maps to \<open>Q\<close> at address 2.
  \<open>Q\<close> evaluates to 15; \<open>P\<close> evaluates to 6, its own value 1 plus the output 5 of the
  network of \<open>Q\<close>, and afterwards the cache of \<open>P\<close> holds 6, not the 0 it held, and \<open>P\<close>
  is clean.
\<close>

theorem evaluate_alias_counterexample:
  "map_option is_dirty' (node_at alias_graph 3) = Some True \<and>
   map_option inputs' (node_at alias_graph 3) = Some [Some 1] \<and>
   map_option name' (node_at alias_graph 3) = Some ''x'' \<and>
   registered alias_graph ''x'' = Some 2 \<and>
   map_option cache' (node_at alias_graph 3) = Some 0 \<and>
   returned (evaluate_int alias_graph 2) = Some 15 \<and>
   returned (evaluate_int alias_graph 3) = Some 6 \<and>
   map_option cache' (node_at (state_after (evaluate_int alias_graph 3)) 3) = Some 6 \<and>
   map_option is_dirty' (node_at (state_after (evaluate_int alias_graph 3)) 3) = Some False"
  by (simp add: alias_graph_def sample_defs assign_def retrieve_def registered_def node_at_def
        returned_def state_after_def evaluate_int_def enough_def)

subsection \<open>Consuming a blueprint\<close>

lemma unresolved_None:
  "unresolved st names = None \<longleftrightarrow> (\<forall>x \<in> set names. retrieve st x \<noteq> None)"
  by (auto simp add: unresolved_def retrieve_def find_None_iff)

lemma unresolved_Some:
  "unresolved st names = Some x \<Longrightarrow> x \<in> set names \<and> retrieve st x = None"
  by (auto simp add: unresolved_def retrieve_def find_Some_iff)

text \<open>
  C5, as the code has it. \<^verbatim>\<open>assign\<close> sets the name. Without a blueprint for the name, the
  node is registered under it and nothing else changes. With a blueprint whose input names
  all resolve, the pointers found are appended, in order, to the inputs that the node already
  has, the network of the blueprint replaces the node's own, and the node is registered,
  whoever held the name before. With a blueprint one of whose input names does not
  resolve, the process ends in \<^verbatim>\<open>assert(0)\<close>, after one line on \<^verbatim>\<open>std::cerr\<close> that names
  an unresolved input, and with the registry as it was.
\<close>

theorem assign_wires_blueprint:
  assumes "heap st this = Some n"
  shows "(blueprints' st name = None \<longrightarrow>
            assign st this name =
              Inr (st\<lparr>heap := (heap st)(this \<mapsto> n\<lparr>name' := name\<rparr>),
                      named_scalars' := (named_scalars' st)(name \<mapsto> this)\<rparr>)) \<and>
         (\<forall>blueprint. blueprints' st name = Some blueprint \<longrightarrow>
            (if \<forall>x \<in> set (input_names blueprint). retrieve st x \<noteq> None
             then assign st this name =
                    Inr (st\<lparr>heap := (heap st)
                            (this \<mapsto> n\<lparr>name' := name,
                                       inputs' := inputs' n @
                                         map (retrieve st) (input_names blueprint),
                                       net' := net blueprint\<rparr>),
                          named_scalars' := (named_scalars' st)(name \<mapsto> this)\<rparr>)
             else (\<exists>x st'. x \<in> set (input_names blueprint) \<and> retrieve st x = None \<and>
                     assign st this name = Inl (AssertFailed st') \<and>
                     cerr st' = cerr st @ [requested_before_assigned x] \<and>
                     named_scalars' st' = named_scalars' st)))"
proof (intro conjI allI impI)
  assume "blueprints' st name = None"
  with assign_eq [OF assms, of name]
  show "assign st this name =
          Inr (st\<lparr>heap := (heap st)(this \<mapsto> n\<lparr>name' := name\<rparr>),
                  named_scalars' := (named_scalars' st)(name \<mapsto> this)\<rparr>)"
    by simp
next
  fix blueprint
  assume b: "blueprints' st name = Some blueprint"
  have m: "map (retrieve st) names = map (named_scalars' st) names" for names
    by (simp add: retrieve_def)
  show "if \<forall>x \<in> set (input_names blueprint). retrieve st x \<noteq> None
        then assign st this name =
               Inr (st\<lparr>heap := (heap st)
                       (this \<mapsto> n\<lparr>name' := name,
                                  inputs' := inputs' n @
                                    map (retrieve st) (input_names blueprint),
                                  net' := net blueprint\<rparr>),
                     named_scalars' := (named_scalars' st)(name \<mapsto> this)\<rparr>)
        else (\<exists>x st'. x \<in> set (input_names blueprint) \<and> retrieve st x = None \<and>
                assign st this name = Inl (AssertFailed st') \<and>
                cerr st' = cerr st @ [requested_before_assigned x] \<and>
                named_scalars' st' = named_scalars' st)"
  proof (cases "unresolved st (input_names blueprint)")
    case None
    with unresolved_None [of st "input_names blueprint"]
    have "\<forall>x \<in> set (input_names blueprint). retrieve st x \<noteq> None" by simp
    with None b assign_eq [OF assms, of name] show ?thesis by (simp add: m)
  next
    case (Some x)
    from unresolved_Some [OF Some]
    have x: "x \<in> set (input_names blueprint)" "retrieve st x = None" by simp_all
    then have no: "\<not> (\<forall>x \<in> set (input_names blueprint). retrieve st x \<noteq> None)" by blast
    from Some b assign_eq [OF assms, of name] x
    have "\<exists>x st'. x \<in> set (input_names blueprint) \<and> retrieve st x = None \<and>
                assign st this name = Inl (AssertFailed st') \<and>
                cerr st' = cerr st @ [requested_before_assigned x] \<and>
                named_scalars' st' = named_scalars' st"
      by auto
    then show ?thesis by (simp only: no if_False)
  qed
qed

theorem assign_wires_blueprint_witness:
  "(\<exists>st'. blueprints' (construct initial_state 0 (new_int 5) :: (int, sum_net) state) ''x'' = None \<and>
          assign (construct initial_state 0 (new_int 5) :: (int, sum_net) state) 0 ''x'' = Inr st' \<and>
          named_scalars' st' ''x'' = Some 0 \<and> map_option name' (heap st' 0) = Some ''x'') \<and>
   (\<exists>st st'. blueprint_graph = Inr st \<and>
          blueprints' st ''y'' = Some \<lparr>input_names = [''x''], net = blueprint_net\<rparr> \<and>
          (\<forall>x \<in> set [''x'']. retrieve st x \<noteq> None) \<and>
          map_option inputs' (heap st 2) = Some [Some 1] \<and>
          assign st 2 ''y'' = Inr st' \<and>
          map_option inputs' (heap st' 2) = Some [Some 1, Some 0] \<and>
          map_option net' (heap st' 2) = Some blueprint_net \<and>
          named_scalars' st' ''y'' = Some 2) \<and>
   (\<exists>st'. blueprints' unwired_state ''y'' = Some \<lparr>input_names = [''x''], net = blueprint_net\<rparr> \<and>
          retrieve unwired_state ''x'' = None \<and>
          assign unwired_state 0 ''y'' = Inl (AssertFailed st') \<and>
          cerr st' = [requested_before_assigned ''x''] \<and>
          named_scalars' st' ''y'' = None)"
proof (intro conjI)
  let ?st = "construct initial_state 0 (new_int 5) :: (int, sum_net) state"
  have h: "heap ?st 0 = Some (new_int 5)" by (simp add: construct_def)
  have b: "blueprints' ?st ''x'' = None" by (simp add: construct_def initial_state_def)
  from assign_wires_blueprint [OF h, of "''x''"] b
  show "\<exists>st'. blueprints' ?st ''x'' = None \<and> assign ?st 0 ''x'' = Inr st' \<and>
          named_scalars' st' ''x'' = Some 0 \<and> map_option name' (heap st' 0) = Some ''x''"
    by simp
next
  obtain st n where g: "blueprint_graph = Inr st" and n: "heap st 2 = Some n" and
    i: "inputs' n = [Some 1]" and
    b: "blueprints' st ''y'' = Some \<lparr>input_names = [''x''], net = blueprint_net\<rparr>" and
    x: "retrieve st ''x'' = Some 0"
    by (simp add: blueprint_graph_def sample_defs assign_def add_blueprint_def retrieve_def)
  from assign_wires_blueprint [OF n, of "''y''"] b x i
  have "\<exists>st'. assign st 2 ''y'' = Inr st' \<and>
          map_option inputs' (heap st' 2) = Some [Some 1, Some 0] \<and>
          map_option net' (heap st' 2) = Some blueprint_net \<and>
          named_scalars' st' ''y'' = Some 2"
    by simp
  with g n i b x
  show "\<exists>st st'. blueprint_graph = Inr st \<and>
          blueprints' st ''y'' = Some \<lparr>input_names = [''x''], net = blueprint_net\<rparr> \<and>
          (\<forall>x \<in> set [''x'']. retrieve st x \<noteq> None) \<and>
          map_option inputs' (heap st 2) = Some [Some 1] \<and>
          assign st 2 ''y'' = Inr st' \<and>
          map_option inputs' (heap st' 2) = Some [Some 1, Some 0] \<and>
          map_option net' (heap st' 2) = Some blueprint_net \<and>
          named_scalars' st' ''y'' = Some 2"
    by auto
next
  have h: "heap unwired_state 0 = Some (new_int 5)"
    by (simp add: unwired_state_def construct_def add_blueprint_def)
  have b: "blueprints' unwired_state ''y'' = Some \<lparr>input_names = [''x''], net = blueprint_net\<rparr>"
    by (simp add: unwired_state_def construct_def add_blueprint_def)
  have x: "retrieve unwired_state ''x'' = None"
    by (simp add: unwired_state_def construct_def add_blueprint_def retrieve_def
          initial_state_def)
  have r: "named_scalars' unwired_state = Map.empty" "cerr unwired_state = []"
    by (simp_all add: unwired_state_def construct_def add_blueprint_def initial_state_def)
  from assign_wires_blueprint [OF h, of "''y''"] b x r
  show "\<exists>st'. blueprints' unwired_state ''y'' = Some \<lparr>input_names = [''x''], net = blueprint_net\<rparr> \<and>
          retrieve unwired_state ''x'' = None \<and>
          assign unwired_state 0 ''y'' = Inl (AssertFailed st') \<and>
          cerr st' = [requested_before_assigned ''x''] \<and>
          named_scalars' st' ''y'' = None"
    by auto
qed

text \<open>
  C5, as the claim states it, fails where the node already has an input: \<open>P\<close> at address
  2 has the input \<open>Z\<close> (address 1) when it is assigned the name \<open>y\<close>, whose blueprint names
  the one input \<open>x\<close>, registered for the node at address 0. Afterwards the inputs of \<open>P\<close> are
  \<open>Z\<close> and then the node of \<open>x\<close>: the list was extended, not overwritten, and its first
  element is not the node of the first input name.
\<close>

theorem assign_wires_blueprint_counterexample:
  "map_option inputs' (node_at blueprint_graph 2) = Some [Some 1] \<and>
   registered blueprint_graph ''x'' = Some 0 \<and>
   map_option inputs' (node_at (and_then blueprint_graph (\<lambda>st. assign st 2 ''y'')) 2)
     = Some [Some 1, Some 0]"
  by (simp add: blueprint_graph_def sample_defs assign_def add_blueprint_def retrieve_def
        registered_def node_at_def)

subsection \<open>The vector of inputs passed to the network\<close>

text \<open>
  C6 on two runs. In the first, \<open>A\<close> (address 0) has the inputs \<open>B\<close> and \<open>C\<close>, which
  evaluate to 2 and 7, and \<open>C\<close> has the inputs \<open>D\<close> and \<open>E\<close>, which evaluate to 3 and 4.
  Evaluating \<open>A\<close> calls \<^verbatim>\<open>compute\<close> twice: for \<open>C\<close> with the vector 3, 4 and for \<open>A\<close> with
  the vector 3, 7, whose first entry is the scalar of \<open>D\<close>, left in the shared static vector
  by the nested evaluation of \<open>C\<close>, and not the 2 of \<open>B\<close>; \<open>A\<close> evaluates to 10. In the
  second, \<open>N1\<close> (address 1) with the input \<open>X\<close>, which holds 5, is evaluated before
  \<open>N2\<close> (address 2), whose one input is null: the network of \<open>N2\<close> is passed the vector 5,
  left by the evaluation of \<open>N1\<close>, and \<open>N2\<close> evaluates to 5.
\<close>

theorem shared_inputs_vector:
  "map_option inputs' (node_at nested_graph 0) = Some [Some 1, Some 2] \<and>
   returned (evaluate_int nested_graph 1) = Some 2 \<and>
   returned (evaluate_int nested_graph 2) = Some 7 \<and>
   inputs_passed (state_after (evaluate_int nested_graph 0)) = [ [3, 4], [3, 7] ] \<and>
   returned (evaluate_int nested_graph 0) = Some 10 \<and>
   map_option inputs' (node_at null_graph 2) = Some [None] \<and>
   inputs_passed (state_after (evaluate_int (state_after (evaluate_int null_graph 1)) 2))
     = [ [5], [5] ] \<and>
   returned (evaluate_int (state_after (evaluate_int null_graph 1)) 2) = Some 5"
  by (simp add: nested_graph_def null_graph_def sample_defs node_at_def inputs_passed_def
        returned_def state_after_def evaluate_int_def enough_def)

subsection \<open>Connecting an input\<close>

text \<open>
  C7. \<^verbatim>\<open>connect\<close> appends the pointer to the inputs, sets the input dimension of the
  network to the old one plus one, adds one linear layer of one unit with the activation
  given if \<^verbatim>\<open>num_layers()\<close> is 1 (the network has its input layer only), initialises the
  network, whatever it held, and calls \<^verbatim>\<open>set_dirty\<close>, which sets the dirty flag if the
  output dimension of the network is not zero and does nothing otherwise. Value, cache,
  name and \<^verbatim>\<open>is_residual\<close> are as before. Where the network class keeps the input
  dimension that \<^verbatim>\<open>set_input_dim\<close> sets through \<^verbatim>\<open>add_linear_layer\<close> and \<^verbatim>\<open>initialize\<close>,
  the input dimension afterwards is the old one plus one.
\<close>

theorem connect_effect:
  assumes "nn_input_dim nn (net' n) \<noteq> 2147483647"
  shows "\<exists>n'. connect nn scalar activation n = Inr n' \<and>
           inputs' n' = inputs' n @ [scalar] \<and>
           net' n' =
             nn_initialize nn (NN_INIT_XAVIER nn)
               (if nn_num_layers nn (nn_set_input_dim nn (nn_input_dim nn (net' n) + 1) (net' n)) = 1
                then nn_add_linear_layer nn activation 1
                       (nn_set_input_dim nn (nn_input_dim nn (net' n) + 1) (net' n))
                else nn_set_input_dim nn (nn_input_dim nn (net' n) + 1) (net' n)) \<and>
           is_dirty' n' = (is_dirty' n \<or> nn_output_dim nn (net' n') \<noteq> 0) \<and>
           value' n' = value' n \<and> cache' n' = cache' n \<and> name' n' = name' n \<and>
           is_residual n' = is_residual n \<and>
           set_dirty nn n = (if nn_output_dim nn (net' n) \<noteq> 0 then n\<lparr>is_dirty' := True\<rparr> else n) \<and>
           (nn_output_dim nn (net' n) = 0 \<longrightarrow> set_dirty nn n = n) \<and>
           ((\<forall>d w. nn_input_dim nn (nn_set_input_dim nn d w) = d) \<and>
            (\<forall>a u w. nn_input_dim nn (nn_add_linear_layer nn a u w) = nn_input_dim nn w) \<and>
            (\<forall>m w. nn_input_dim nn (nn_initialize nn m w) = nn_input_dim nn w) \<longrightarrow>
            nn_input_dim nn (net' n') = nn_input_dim nn (net' n) + 1)"
  using assms
  by (simp add: connect_def set_dirty_def initialize_def Let_def)

theorem connect_effect_witness:
  "nn_input_dim sum_network (net' (new_int 0)) \<noteq> 2147483647 \<and>
   nn_input_dim sum_network (net' clean_node) \<noteq> 2147483647 \<and>
   (\<forall>d w. nn_input_dim sum_network (nn_set_input_dim sum_network d w) = d) \<and>
   (\<forall>a u w. nn_input_dim sum_network (nn_add_linear_layer sum_network a u w)
              = nn_input_dim sum_network w) \<and>
   (\<forall>m w. nn_input_dim sum_network (nn_initialize sum_network m w) = nn_input_dim sum_network w) \<and>
   connect sum_network (Some 1) () (new_int 0) =
     Inr \<lparr>value' = 0, cache' = 0, is_dirty' = True, inputs' = [Some 1],
          net' = \<lparr>in_dim = 1, widths = [1]\<rparr>, name' = [], is_residual = True\<rparr> \<and>
   nn_output_dim sum_network (net' clean_node) = 0 \<and>
   set_dirty sum_network clean_node = clean_node \<and>
   connect sum_network None () clean_node =
     Inr \<lparr>value' = 3, cache' = 3, is_dirty' = False, inputs' = [None],
          net' = \<lparr>in_dim = 1, widths = [0]\<rparr>, name' = [], is_residual = True\<rparr>"
proof -
  have a: "nn_input_dim sum_network (net' (new_int 0)) \<noteq> 2147483647"
    and b: "nn_input_dim sum_network (net' clean_node) \<noteq> 2147483647"
    by (simp_all add: sample_defs clean_node_def)
  from connect_effect [OF a, of "Some 1" "()"] connect_effect [OF b, of None "()"] a b
  show ?thesis
    by (simp add: sample_defs clean_node_def)
qed

subsection \<open>Operators\<close>

lemma evaluate_both_split:
  assumes "evaluate_both ops nn k st first second = Inr (x, y, st2)"
  shows "\<exists>st1. evaluate ops nn k st first = Inr (x, st1) \<and>
               evaluate ops nn k st1 second = Inr (y, st2)"
  using assms by (auto simp add: evaluate_both_def split: sum.splits)

lemma evaluate_both_frame:
  assumes "evaluate_both ops nn k st first second = Inr (x, y, st2)"
  shows "evaluation_frame st st2"
proof -
  from evaluate_both_split [OF assms] obtain st1 where
    "evaluate ops nn k st first = Inr (x, st1)" "evaluate ops nn k st1 second = Inr (y, st2)"
    by blast
  then show ?thesis by (blast intro: evaluate_frame evaluation_frame_trans)
qed

lemma evaluate_of_value:
  assumes "heap st p = Some (NeuralScalar_of_value ops nn uninit v)"
  shows "\<exists>st'. evaluate ops nn (Suc j) st p = Inr (v, st') \<and>
               compute_calls st' = compute_calls st"
  using assms by (simp add: NeuralScalar_of_value_def)

text \<open>
  C8. Where the two evaluations of the operands return, in the order in which the
  operator makes them, each arithmetic operator returns a new object built with the
  constructor from a scalar: the scalars returned by the two evaluations combined with the
  operator of the scalar domain, no inputs, the default-constructed network and no name.
  \<^verbatim>\<open>operator*\<close> evaluates \<^verbatim>\<open>rhs\<close> first and multiplies in that order. The comparisons return
  the relation of the two scalars, the negation wraps the negated scalar. The state changes
  as the evaluations change it, so no node gains an input. Wherever the new object is later
  stored and whatever the state then is, it evaluates to the scalar it wraps, without a
  call of \<^verbatim>\<open>compute\<close>.
\<close>

theorem operators_collapse:
  assumes "evaluate_both ops nn k st a b = Inr (x, y, st1)"
    and "evaluate_both ops nn k st b a = Inr (y', x', st2)"
    and "evaluate ops nn k st b = Inr (z, st3)"
  shows "operator_plus ops nn uninit k st a b
           = Inr (NeuralScalar_of_value ops nn uninit (s_add ops x y), st1) \<and>
         operator_minus ops nn uninit k st a b
           = Inr (NeuralScalar_of_value ops nn uninit (s_sub ops x y), st1) \<and>
         operator_times ops nn uninit k st a b
           = Inr (NeuralScalar_of_value ops nn uninit (s_mul ops y' x'), st2) \<and>
         operator_divide ops nn uninit k st a b
           = Inr (NeuralScalar_of_value ops nn uninit (s_div ops x y), st1) \<and>
         operator_less ops nn k st a b = Inr (s_lt ops x y, st1) \<and>
         operator_less_equal ops nn k st a b = Inr (s_le ops x y, st1) \<and>
         operator_greater ops nn k st a b = Inr (s_gt ops x y, st1) \<and>
         operator_equal ops nn k st a b = Inr (s_eq ops x y, st1) \<and>
         operator_not_equal ops nn k st a b = Inr (s_ne ops x y, st1) \<and>
         operator_negate ops nn uninit k st b
           = Inr (NeuralScalar_of_value ops nn uninit (s_neg ops z), st3) \<and>
         (\<exists>st'. evaluate ops nn k st a = Inr (x, st') \<and> evaluate ops nn k st' b = Inr (y, st1)) \<and>
         (\<exists>st'. evaluate ops nn k st b = Inr (y', st') \<and> evaluate ops nn k st' a = Inr (x', st2)) \<and>
         evaluation_frame st st1 \<and> evaluation_frame st st2 \<and> evaluation_frame st st3 \<and>
         (\<forall>v. inputs' (NeuralScalar_of_value ops nn uninit v) = [] \<and>
              net' (NeuralScalar_of_value ops nn uninit v) = nn_default nn \<and>
              name' (NeuralScalar_of_value ops nn uninit v) = [] \<and>
              value' (NeuralScalar_of_value ops nn uninit v) = v \<and>
              (\<forall>st'' p j. heap st'' p = Some (NeuralScalar_of_value ops nn uninit v) \<longrightarrow>
                 (\<exists>st'''. evaluate ops nn (Suc j) st'' p = Inr (v, st''') \<and>
                          compute_calls st''' = compute_calls st'')))"
proof -
  have ops: "operator_plus ops nn uninit k st a b
           = Inr (NeuralScalar_of_value ops nn uninit (s_add ops x y), st1)"
         "operator_minus ops nn uninit k st a b
           = Inr (NeuralScalar_of_value ops nn uninit (s_sub ops x y), st1)"
         "operator_times ops nn uninit k st a b
           = Inr (NeuralScalar_of_value ops nn uninit (s_mul ops y' x'), st2)"
         "operator_divide ops nn uninit k st a b
           = Inr (NeuralScalar_of_value ops nn uninit (s_div ops x y), st1)"
         "operator_negate ops nn uninit k st b
           = Inr (NeuralScalar_of_value ops nn uninit (s_neg ops z), st3)"
    using assms
    by (simp_all add: operator_plus_def operator_minus_def operator_times_def
          operator_divide_def operator_negate_def)
  have cmp: "operator_less ops nn k st a b = Inr (s_lt ops x y, st1)"
         "operator_less_equal ops nn k st a b = Inr (s_le ops x y, st1)"
         "operator_greater ops nn k st a b = Inr (s_gt ops x y, st1)"
         "operator_equal ops nn k st a b = Inr (s_eq ops x y, st1)"
         "operator_not_equal ops nn k st a b = Inr (s_ne ops x y, st1)"
    using assms(1)
    by (simp_all add: operator_less_def operator_less_equal_def operator_greater_def
          operator_equal_def operator_not_equal_def compare_def)
  have fr: "evaluation_frame st st1" "evaluation_frame st st2" "evaluation_frame st st3"
    using assms by (blast intro: evaluate_both_frame evaluate_frame)+
  have new: "inputs' (NeuralScalar_of_value ops nn uninit v) = [] \<and>
              net' (NeuralScalar_of_value ops nn uninit v) = nn_default nn \<and>
              name' (NeuralScalar_of_value ops nn uninit v) = [] \<and>
              value' (NeuralScalar_of_value ops nn uninit v) = v \<and>
              (\<forall>st'' p j. heap st'' p = Some (NeuralScalar_of_value ops nn uninit v) \<longrightarrow>
                 (\<exists>st'''. evaluate ops nn (Suc j) st'' p = Inr (v, st''') \<and>
                          compute_calls st''' = compute_calls st''))" for v
    using evaluate_of_value [where ops = ops and nn = nn and uninit = uninit and v = v]
    by (simp add: NeuralScalar_of_value_def)
  from ops cmp fr new evaluate_both_split [OF assms(1)] evaluate_both_split [OF assms(2)]
  show ?thesis by blast
qed

theorem operators_collapse_witness:
  "\<exists>st st1 st2 st3 c.
     nested_graph = Inr st \<and>
     evaluate_both int_scalar sum_network enough st 0 2 = Inr (10, 7, st1) \<and>
     evaluate_both int_scalar sum_network enough st 2 0 = Inr (7, 9, st2) \<and>
     evaluate int_scalar sum_network enough st 2 = Inr (7, st3) \<and>
     operator_plus int_scalar sum_network 0 enough st 0 2 = Inr (c, st1) \<and>
     value' c = 17 \<and> inputs' c = [] \<and> net' c = nn_default sum_network \<and>
     operator_times int_scalar sum_network 0 enough st 0 2 = Inr (new_int 63, st2) \<and>
     operator_less int_scalar sum_network enough st 0 2 = Inr (False, st1) \<and>
     operator_negate int_scalar sum_network 0 enough st 2 = Inr (new_int (- 7), st3) \<and>
     map_option inputs' (heap st1 0) = map_option inputs' (heap st 0) \<and>
     returned (evaluate int_scalar sum_network (Suc 0) (construct st1 9 c) 9) = Some 17"
proof -
  obtain st where g: "nested_graph = Inr st"
    by (simp add: nested_graph_def sample_defs)
  obtain st1 where ab: "evaluate_both int_scalar sum_network enough st 0 2 = Inr (10, 7, st1)"
    using g by (auto simp add: nested_graph_def sample_defs evaluate_both_def enough_def)
  obtain st2 where ba: "evaluate_both int_scalar sum_network enough st 2 0 = Inr (7, 9, st2)"
    using g by (auto simp add: nested_graph_def sample_defs evaluate_both_def enough_def)
  obtain st3 where neg: "evaluate int_scalar sum_network enough st 2 = Inr (7, st3)"
    using g by (auto simp add: nested_graph_def sample_defs enough_def)
  note c = operators_collapse [OF ab ba neg, of 0]
  let ?c = "NeuralScalar_of_value int_scalar sum_network 0 (17::int)"
  have h: "heap (construct st1 9 ?c) 9 = Some ?c" by (simp add: construct_def)
  from c have "\<forall>s p j. heap s p = Some ?c \<longrightarrow>
      (\<exists>s'. evaluate int_scalar sum_network (Suc j) s p = Inr (17, s') \<and>
            compute_calls s' = compute_calls s)"
    by blast
  with h obtain s' where
    e: "evaluate int_scalar sum_network (Suc 0) (construct st1 9 ?c) 9 = Inr (17, s')"
    by blast
  from c have f: "evaluation_frame st st1" by blast
  have i: "map_option inputs' (heap st1 0) = map_option inputs' (heap st 0)"
  proof (cases "heap st 0")
    case None
    with evaluation_frame_none [OF f] show ?thesis by simp
  next
    case (Some n)
    from evaluation_frame_node [OF f Some] obtain n' where
      "heap st1 0 = Some n'" "node_step n n'" by blast
    with Some node_step_wiring [of n n'] show ?thesis by (simp add: wiring_def)
  qed
  from c have
    "operator_plus int_scalar sum_network 0 enough st 0 2
       = Inr (NeuralScalar_of_value int_scalar sum_network 0 (s_add int_scalar 10 7), st1)"
    "operator_times int_scalar sum_network 0 enough st 0 2
       = Inr (NeuralScalar_of_value int_scalar sum_network 0 (s_mul int_scalar 7 9), st2)"
    "operator_less int_scalar sum_network enough st 0 2 = Inr (s_lt int_scalar 10 7, st1)"
    "operator_negate int_scalar sum_network 0 enough st 2
       = Inr (NeuralScalar_of_value int_scalar sum_network 0 (s_neg int_scalar 7), st3)"
    by blast+
  with g ab ba neg e i show ?thesis
    by (auto simp add: int_scalar_def new_int_def NeuralScalar_of_value_def returned_def
          sum_network_def)
qed

subsection \<open>Assignment\<close>

lemma store_eq:
  "heap st this = Some n \<Longrightarrow>
   store f v st this
     = Inr (st\<lparr>heap := (heap st)(this \<mapsto> n\<lparr>value' := f (value' n) v, is_dirty' := True\<rparr>)\<rparr>)"
  by (simp add: store_def on_this_def)

text \<open>
  C9. Where the evaluation of the operand returns the scalar \<open>v\<close>, the assignment from a
  node and the four compound assignments return the state that the evaluation leaves, with
  one object written, the one assigned to: its value is \<open>v\<close>, or the old value combined with
  \<open>v\<close>, and its dirty flag is set. An evaluation writes no value, input list, network, name
  or \<^verbatim>\<open>is_residual\<close>, so these members of the object, the value apart, are the ones it had
  before the call. The assignments from a scalar and from a \<^verbatim>\<open>double\<close> evaluate nothing and
  write the same two members.
\<close>

theorem assignment_frame:
  assumes "heap st this = Some n" and "evaluate ops nn k st rhs = Inr (v, st1)"
  shows "\<exists>n1. heap st1 this = Some n1 \<and>
           value' n1 = value' n \<and> inputs' n1 = inputs' n \<and> net' n1 = net' n \<and>
           name' n1 = name' n \<and> is_residual n1 = is_residual n \<and>
           operator_assign ops nn k st this rhs
             = Inr (st1\<lparr>heap := (heap st1)(this \<mapsto> n1\<lparr>value' := v, is_dirty' := True\<rparr>)\<rparr>) \<and>
           operator_plus_assign ops nn k st this rhs
             = Inr (st1\<lparr>heap := (heap st1)
                     (this \<mapsto> n1\<lparr>value' := s_add ops (value' n) v, is_dirty' := True\<rparr>)\<rparr>) \<and>
           operator_minus_assign ops nn k st this rhs
             = Inr (st1\<lparr>heap := (heap st1)
                     (this \<mapsto> n1\<lparr>value' := s_sub ops (value' n) v, is_dirty' := True\<rparr>)\<rparr>) \<and>
           operator_times_assign ops nn k st this rhs
             = Inr (st1\<lparr>heap := (heap st1)
                     (this \<mapsto> n1\<lparr>value' := s_mul ops (value' n) v, is_dirty' := True\<rparr>)\<rparr>) \<and>
           operator_divide_assign ops nn k st this rhs
             = Inr (st1\<lparr>heap := (heap st1)
                     (this \<mapsto> n1\<lparr>value' := s_div ops (value' n) v, is_dirty' := True\<rparr>)\<rparr>) \<and>
           operator_assign_scalar st this w
             = Inr (st\<lparr>heap := (heap st)(this \<mapsto> n\<lparr>value' := w, is_dirty' := True\<rparr>)\<rparr>) \<and>
           operator_assign_double of_double st this d
             = Inr (st\<lparr>heap := (heap st)
                     (this \<mapsto> n\<lparr>value' := of_double d, is_dirty' := True\<rparr>)\<rparr>)"
proof -
  from evaluation_frame_node [OF evaluate_frame [OF assms(2)] assms(1)]
  obtain n1 where n1: "heap st1 this = Some n1" and s: "node_step n n1" by blast
  from node_step_wiring [OF s]
  have w: "value' n1 = value' n" "inputs' n1 = inputs' n" "net' n1 = net' n"
    "name' n1 = name' n" "is_residual n1 = is_residual n"
    by (simp_all add: wiring_def)
  have e: "store_evaluated f ops nn k st this rhs
             = Inr (st1\<lparr>heap := (heap st1)
                     (this \<mapsto> n1\<lparr>value' := f (value' n) v, is_dirty' := True\<rparr>)\<rparr>)" for f
    using assms(2) store_eq [OF n1, of f v] w(1) by (simp add: store_evaluated_def)
  from n1 w e store_eq [OF assms(1)] show ?thesis
    by (simp add: operator_assign_def operator_plus_assign_def operator_minus_assign_def
          operator_times_assign_def operator_divide_assign_def operator_assign_scalar_def
          operator_assign_double_def)
qed

theorem assignment_frame_witness:
  "\<exists>st n st1 st' st2.
     nested_graph = Inr st \<and> heap st 0 = Some n \<and> value' n = 0 \<and>
     evaluate int_scalar sum_network enough st 2 = Inr (7, st1) \<and>
     operator_minus_assign int_scalar sum_network enough st 0 2 = Inr st' \<and>
     map_option value' (heap st' 0) = Some (- 7) \<and>
     map_option is_dirty' (heap st' 0) = Some True \<and>
     map_option inputs' (heap st' 0) = Some [Some 1, Some 2] \<and>
     map_option net' (heap st' 0) = Some (net' n) \<and>
     map_option name' (heap st' 0) = Some [] \<and>
     operator_assign_scalar st 0 4 = Inr st2 \<and>
     map_option value' (heap st2 0) = Some 4 \<and>
     map_option inputs' (heap st2 0) = Some [Some 1, Some 2]"
proof -
  obtain st n where g: "nested_graph = Inr st" and n: "heap st 0 = Some n" and
    v: "value' n = 0" and i: "inputs' n = [Some 1, Some 2]" and nm: "name' n = []"
    by (simp add: nested_graph_def sample_defs)
  obtain st1 where ev: "evaluate int_scalar sum_network enough st 2 = Inr (7, st1)"
    using g by (auto simp add: nested_graph_def sample_defs enough_def)
  from assignment_frame [OF n ev, of 4 id 0] obtain n1 where
    "heap st1 0 = Some n1" "inputs' n1 = inputs' n" "net' n1 = net' n" "name' n1 = name' n"
    "operator_minus_assign int_scalar sum_network enough st 0 2
       = Inr (st1\<lparr>heap := (heap st1)
               (0 \<mapsto> n1\<lparr>value' := s_sub int_scalar (value' n) 7, is_dirty' := True\<rparr>)\<rparr>)"
    "operator_assign_scalar st 0 4
       = Inr (st\<lparr>heap := (heap st)(0 \<mapsto> n\<lparr>value' := 4, is_dirty' := True\<rparr>)\<rparr>)"
    by blast
  with g n v i nm ev show ?thesis
    by (auto simp add: int_scalar_def)
qed

subsection \<open>The recursion budget\<close>

lemma evaluate_dirty_eq:
  assumes "heap st this = Some n" and "is_dirty' n" and "inputs' n \<noteq> []"
  shows "evaluate ops nn (Suc k) st this =
           (case evaluate_network ops nn k st this of
              Inl e \<Rightarrow> Inl e
            | Inr (net_output, st1) \<Rightarrow>
                (case heap st1 this of
                   None \<Rightarrow> Inl Dangling
                 | Some n1 \<Rightarrow>
                     let c = (if is_residual n1 then s_add ops (value' n1) net_output
                              else net_output)
                     in Inr (c, st1\<lparr>heap := (heap st1)
                                  (this \<mapsto> n1\<lparr>cache' := c, is_dirty' := False\<rparr>)\<rparr>)))"
  using assms by simp

lemma more_fuel_step:
  "(\<forall>res. evaluate ops nn k st this = Inr res \<longrightarrow> evaluate ops nn (Suc k) st this = Inr res)"
  "(\<forall>res. evaluate_network ops nn k st this = Inr res \<longrightarrow>
          evaluate_network ops nn (Suc k) st this = Inr res)"
  "(\<forall>st'. eval_inputs ops nn k st ps i = Inr st' \<longrightarrow>
          eval_inputs ops nn (Suc k) st ps i = Inr st')"
proof (induction ops nn k st this and ops nn k st this and ops nn k st ps i
       rule: evaluate_evaluate_network_eval_inputs.induct)
  case (1 ops nn st this)
  then show ?case by simp
next
  case (2 ops nn k st this)
  show ?case
  proof (intro allI impI)
    fix res
    assume ev: "evaluate ops nn (Suc k) st this = Inr res"
    then obtain n where n: "heap st this = Some n"
      by (cases "heap st this") simp_all
    show "evaluate ops nn (Suc (Suc k)) st this = Inr res"
    proof (cases "is_dirty' n \<and> inputs' n \<noteq> []")
      case False
      with ev n show ?thesis by auto
    next
      case True
      then have d: "is_dirty' n" and i: "inputs' n \<noteq> []" by simp_all
      show ?thesis
      proof (cases "evaluate_network ops nn k st this")
        case (Inl e)
        with ev show ?thesis unfolding evaluate_dirty_eq [OF n d i] by simp
      next
        case (Inr r)
        with "2.IH" [OF n] d i
        have "evaluate_network ops nn (Suc k) st this = evaluate_network ops nn k st this"
          by simp
        with ev show ?thesis
          unfolding evaluate_dirty_eq [OF n d i, of ops nn k]
            evaluate_dirty_eq [OF n d i, of ops nn "Suc k"]
          by (simp only:)
      qed
    qed
  qed
next
  case (3 ops nn st this)
  then show ?case by simp
next
  case (4 ops nn k st this)
  show ?case
  proof (intro allI impI)
    fix res
    assume ev: "evaluate_network ops nn (Suc k) st this = Inr res"
    then obtain n where n: "heap st this = Some n"
      by (cases "heap st this") simp_all
    show "evaluate_network ops nn (Suc (Suc k)) st this = Inr res"
    proof (cases "name' n \<noteq> [] \<and> named_scalars' st (name' n) \<noteq> Some this")
      case True
      with ev n obtain other where o: "named_scalars' st (name' n) = Some other"
        and ev': "evaluate_network ops nn k st other = Inr res"
        by (cases "named_scalars' st (name' n)") auto
      from True o have nm: "name' n \<noteq> []" and ne: "other \<noteq> this" by auto
      from "4.IH"(1) [OF n True o] ev'
      have "evaluate_network ops nn (Suc k) st other = Inr res" by blast
      then show ?thesis
        unfolding evaluate_network_alias [OF n nm o ne, of ops nn "Suc k"] .
    next
      case False
      then have na: "name' n = [] \<or> named_scalars' st (name' n) = Some this" by blast
      let ?st0 = "declare_inputs ops (length (inputs' n)) st"
      show ?thesis
      proof (cases "eval_inputs ops nn k ?st0 (inputs' n) 0")
        case (Inl e)
        with ev show ?thesis unfolding evaluate_network_own_eq [OF n na] by simp
      next
        case (Inr st1)
        with "4.IH"(2) [OF n False]
        have "eval_inputs ops nn (Suc k) ?st0 (inputs' n) 0
                = eval_inputs ops nn k ?st0 (inputs' n) 0"
          by simp
        with ev show ?thesis
          unfolding evaluate_network_own_eq [OF n na, of ops nn k]
            evaluate_network_own_eq [OF n na, of ops nn "Suc k"]
          by (simp only:)
      qed
    qed
  qed
next
  case (5 ops nn k st i)
  then show ?case by simp
next
  case (6 ops nn k st ps i)
  then show ?case by simp
next
  case (7 ops nn k st p ps i)
  show ?case
  proof (intro allI impI)
    fix st'
    assume ev: "eval_inputs ops nn k st (Some p # ps) i = Inr st'"
    show "eval_inputs ops nn (Suc k) st (Some p # ps) i = Inr st'"
    proof (cases "evaluate ops nn k st p")
      case (Inl e)
      with ev show ?thesis by simp
    next
      case (Inr res)
      obtain v st1 where res: "res = (v, st1)" by (cases res)
      note e1 = Inr [unfolded res]
      from "7.IH"(1) e1 have e1': "evaluate ops nn (Suc k) st p = Inr (v, st1)" by blast
      show ?thesis
      proof (cases "static_inputs st1")
        case None
        with ev e1 show ?thesis by simp
      next
        case (Some xs)
        show ?thesis
        proof (cases "i < length xs")
          case False
          with ev e1 Some show ?thesis by simp
        next
          case True
          with ev e1 Some have e2:
            "eval_inputs ops nn k (st1\<lparr>static_inputs := Some (xs[i := v])\<rparr>) ps (Suc i) = Inr st'"
            by simp
          from "7.IH"(2) [OF e1 refl Some True] e2
          have e2': "eval_inputs ops nn (Suc k) (st1\<lparr>static_inputs := Some (xs[i := v])\<rparr>)
                       ps (Suc i) = Inr st'"
            by blast
          show ?thesis
            unfolding eval_inputs.simps(3) [of ops nn "Suc k"] e1'
            using Some True e2' by simp
        qed
      qed
    qed
  qed
qed

lemma evaluate_more_fuel:
  "evaluate ops nn k st this = Inr res \<Longrightarrow> evaluate ops nn (k + j) st this = Inr res"
proof (induction j)
  case 0
  then show ?case by simp
next
  case (Suc j)
  with more_fuel_step(1) [of ops nn "k + j" st this] show ?case by simp
qed

lemma evaluate_dirty_network_only:
  assumes n: "heap st this = Some n" and d: "is_dirty' n" and i: "inputs' n \<noteq> []"
    and na: "name' n = [] \<or> named_scalars' st (name' n) = Some this"
    and ev: "evaluate ops nn fuel st this = Inr (r, st')"
  shows "\<exists>k st1 y ys. fuel = Suc (Suc k) \<and>
           eval_inputs ops nn k (declare_inputs ops (length (inputs' n)) st) (inputs' n) 0
             = Inr st1 \<and>
           nn_compute nn (net' n) (inputs_vector st1) (output_vector (declare_output ops st1))
             = y # ys"
proof -
  from ev obtain f where f: "fuel = Suc f" by (cases fuel) simp_all
  from ev obtain res where net: "evaluate_network ops nn f st this = Inr res"
    unfolding f evaluate_dirty_eq [OF n d i] by (cases "evaluate_network ops nn f st this") simp_all
  then obtain k where k: "f = Suc k" by (cases f) simp_all
  from net obtain st1 where
    loop: "eval_inputs ops nn k (declare_inputs ops (length (inputs' n)) st) (inputs' n) 0
             = Inr st1"
    unfolding k evaluate_network_own_eq [OF n na]
    by (cases "eval_inputs ops nn k (declare_inputs ops (length (inputs' n)) st) (inputs' n) 0")
       simp_all
  from net obtain y ys where
    "output_vector (call_compute nn (net' n) (declare_output ops st1)) = y # ys"
    unfolding k evaluate_network_own_eq [OF n na] loop
    by (cases "output_vector (call_compute nn (net' n) (declare_output ops st1))") simp_all
  then have "nn_compute nn (net' n) (inputs_vector st1) (output_vector (declare_output ops st1))
               = y # ys"
    by (simp add: call_compute_output declare_output_other)
  with f k loop show ?thesis by blast
qed

subsection \<open>The sample graphs are states that a program reaches\<close>

lemma reachable_new_int:
  "reachable int_scalar sum_network st \<Longrightarrow> heap st p = None \<Longrightarrow>
   reachable int_scalar sum_network (construct st p (new_int v))"
  unfolding new_int_def by (rule reachable.new_of_value)

lemma reachable_and_then:
  assumes "and_then r f = Inr st'"
    and "\<And>st. r = Inr st \<Longrightarrow> reachable ops nn st"
    and "\<And>st. reachable ops nn st \<Longrightarrow> f st = Inr st' \<Longrightarrow> reachable ops nn st'"
  shows "reachable ops nn st'"
proof (cases r)
  case (Inl e)
  with assms(1) show ?thesis by (simp add: and_then_def)
next
  case (Inr st)
  with assms(1) have "f st = Inr st'" by (simp add: and_then_def)
  with assms(2) [OF Inr] show ?thesis by (rule assms(3))
qed

lemma nested_graph_reachable:
  assumes "nested_graph = Inr st"
  shows "reachable int_scalar sum_network st"
proof -
  have r: "reachable int_scalar sum_network
          (construct (construct (construct (construct (construct initial_state
               0 (new_int 0)) 1 (new_int 2)) 2 (new_int 0)) 3 (new_int 3)) 4 (new_int 4))"
    by (intro reachable_new_int reachable.start) (simp_all add: construct_def initial_state_def)
  from assms [unfolded nested_graph_def] show ?thesis
    apply (rule reachable_and_then)
     apply (erule reachable_and_then)
      apply (erule reachable_and_then)
       apply (erule reachable_and_then)
        apply (use r in simp)
       apply (erule (1) reachable.call_connect)+
    done
qed

lemma null_graph_reachable:
  assumes "null_graph = Inr st"
  shows "reachable int_scalar sum_network st"
proof -
  have r: "reachable int_scalar sum_network
          (construct (construct (construct initial_state
               0 (new_int 5)) 1 (new_int 0)) 2 (new_int 0))"
    by (intro reachable_new_int reachable.start) (simp_all add: construct_def initial_state_def)
  from assms [unfolded null_graph_def] show ?thesis
    apply (rule reachable_and_then)
     apply (erule reachable_and_then)
      apply (use r in simp)
     apply (erule (1) reachable.call_connect)+
    done
qed

lemma alias_graph_reachable:
  assumes "alias_graph = Inr st"
  shows "reachable int_scalar sum_network st"
proof -
  have r: "reachable int_scalar sum_network
          (construct (construct (construct (construct initial_state
               0 (new_int 5)) 1 (new_int 100)) 2 (new_int 10)) 3 (new_int 1))"
    by (intro reachable_new_int reachable.start) (simp_all add: construct_def initial_state_def)
  from assms [unfolded alias_graph_def] show ?thesis
    apply (rule reachable_and_then)
     apply (erule reachable_and_then)
      apply (erule reachable_and_then)
       apply (erule reachable_and_then)
        apply (use r in simp)
       apply (erule (1) reachable.call_connect)+
     apply (erule (1) reachable.call_assign)+
    done
qed

lemma chain_graph_reachable:
  assumes "chain_graph = Inr st"
  shows "reachable int_scalar sum_network st"
proof -
  have r: "reachable int_scalar sum_network
          (construct (construct (construct (construct (construct (construct initial_state
               0 (new_int 5)) 1 (new_int 100)) 2 (new_int 10)) 3 (new_int 1))
               4 (new_int 1000)) 5 (new_int 0))"
    by (intro reachable_new_int reachable.start) (simp_all add: construct_def initial_state_def)
  from assms [unfolded chain_graph_def] show ?thesis
    apply (rule reachable_and_then)
     apply (erule reachable_and_then)
      apply (erule reachable_and_then)
       apply (erule reachable_and_then)
        apply (erule reachable_and_then)
         apply (erule reachable_and_then)
          apply (erule reachable_and_then)
           apply (use r in simp)
          apply (erule (1) reachable.call_connect)+
       apply (erule (1) reachable.call_assign)+
    done
qed

lemma blueprint_graph_reachable:
  assumes "blueprint_graph = Inr st"
  shows "reachable int_scalar sum_network st"
proof -
  have r: "reachable int_scalar sum_network
          (add_blueprint (construct (construct (construct initial_state
               0 (new_int 5)) 1 (new_int 6)) 2 (new_int 7)) ''y'' [''x''] blueprint_net)"
    by (intro reachable.call_add_blueprint reachable_new_int reachable.start)
       (simp_all add: construct_def initial_state_def)
  from assms [unfolded blueprint_graph_def] show ?thesis
    apply (rule reachable_and_then)
     apply (erule reachable_and_then)
      apply (use r in simp)
     apply (erule (1) reachable.call_connect)
    apply (erule (1) reachable.call_assign)
    done
qed

end
